theory Spec2Isabelle
  imports Complex_Main "HOL-Library.AList"
begin

section \<open>Shared protocol types (server/src/types.ts, webview-ui/src/network/protocol.ts)\<close>

text \<open>
  JavaScript numbers that the program uses as integers (player ids, character indices,
  tile coordinates, millisecond timestamps) are modelled as \<open>int\<close>.  A WebSocket object
  is modelled by its identity, a natural number.
\<close>

datatype PlayerStatus = Coding | Reading | Idle | Afk

record PlayerInfo =
  id' :: int
  name :: string
  characterIndex :: int
  status :: PlayerStatus
  seatId :: "string option"

datatype ClientMessage =
    CreateRoom string int
  | JoinRoom string string int
  | SetStatus PlayerStatus
  | ReassignSeat string
  | Ping

datatype ServerMessage =
    RoomJoined string int "PlayerInfo list"
  | PlayerJoined PlayerInfo
  | PlayerLeft int
  | PlayerStatusChanged int PlayerStatus
  | PlayerSeatChanged int string
  | Pong
  | Error string

type_synonym ws = nat

text \<open>The value of \<open>WebSocket.OPEN\<close> (the server compares \<open>readyState\<close> with the literal 1).\<close>

definition OPEN :: nat where
  "OPEN = 1"

section \<open>Room identifiers (roomManager.ts generateRoomId, useWebSocket generateRoomCode)\<close>

text \<open>
  \<open>Math.random()\<close> is an input of the model: \<open>rnd k\<close> is the value the \<open>k\<close>-th call
  returns, and every function that draws takes the number of calls made so far.  JavaScript
  specifies the value to lie in \<open>[0, 1)\<close>; \<open>random_ok\<close> states this.  The code multiplies
  in IEEE double arithmetic.  The product with \<open>chars.length\<close>, which is 32, a power of two, is
  exact there, so the product of the reals is the code's.
\<close>

definition random_ok :: "(nat \<Rightarrow> real) \<Rightarrow> bool" where
  "random_ok rnd = (\<forall>k. 0 \<le> rnd k \<and> rnd k < 1)"

definition chars :: string where
  "chars = ''ABCDEFGHJKLMNPQRSTUVWXYZ23456789''"

text \<open>\<open>s[i]\<close> appended to a string: out of range it is \<open>undefined\<close>, which \<open>+=\<close> spells out.\<close>

definition charAt :: "string \<Rightarrow> int \<Rightarrow> string" where
  "charAt s i = (if 0 \<le> i \<and> i < int (length s) then [s ! nat i] else ''undefined'')"

text \<open>The loop \<open>for (let i = 0; i < 6; i++) id += chars[Math.floor(Math.random() * chars.length)]\<close>,
  by the number of rounds left.\<close>

fun appendRandomChars :: "(nat \<Rightarrow> real) \<Rightarrow> nat \<Rightarrow> nat \<Rightarrow> string \<Rightarrow> string" where
  "appendRandomChars rnd k 0 acc = acc"
| "appendRandomChars rnd k (Suc n) acc =
     appendRandomChars rnd (Suc k) n (acc @ charAt chars \<lfloor>rnd k * real (length chars)\<rfloor>)"

definition generateRoomId :: "(nat \<Rightarrow> real) \<Rightarrow> nat \<Rightarrow> string" where
  "generateRoomId rnd k = appendRandomChars rnd k 6 ''''"

definition generateRoomCode :: "(nat \<Rightarrow> real) \<Rightarrow> nat \<Rightarrow> string" where
  "generateRoomCode rnd k = appendRandomChars rnd k 6 ''''"

text \<open>
  \<open>generatePlayerId\<close> returns \<open>Math.floor(Math.random() * 900000) + 100000\<close>.  This product
  is rounded to a double and need not be the product of the reals, so the function of the
  model takes the product as the code computes it.
\<close>

definition generatePlayerId :: "real \<Rightarrow> int" where
  "generatePlayerId product = \<lfloor>product\<rfloor> + 100000"

text \<open>
  The serverless client's \<open>createRoom\<close> (the hook built on Supabase Realtime): it draws a
  room code and a player id and subscribes to the channel of that code.  \<open>product\<close> is the
  double \<open>Math.random() * 900000\<close> of the player id's draw.  The result is the pair of
  arguments it passes to \<open>subscribeToRoom\<close>.  It consults no list of rooms.
\<close>

definition createRoom :: "(nat \<Rightarrow> real) \<Rightarrow> nat \<Rightarrow> real \<Rightarrow> string \<Rightarrow> int \<Rightarrow> string \<times> PlayerInfo" where
  "createRoom rnd k product playerName ci =
     (let code = generateRoomCode rnd k;
          i = generatePlayerId product
      in (code, \<lparr>id' = i, name = playerName, characterIndex = ci, status = Idle, seatId = None\<rparr>))"

section \<open>The relay server (server/src/roomManager.ts)\<close>

text \<open>JavaScript's \<open>%\<close> on integers: the remainder of the truncating division, which takes
  the sign of the dividend.\<close>

definition js_rem :: "int \<Rightarrow> int \<Rightarrow> int" where
  "js_rem a b = sgn a * (\<bar>a\<bar> mod \<bar>b\<bar>)"

text \<open>
  A \<open>Room\<close>.  \<open>players\<close> is a JavaScript \<open>Map\<close> from the socket to \<open>{ws, info}\<close>: an
  association list in insertion order, and \<open>Map.set\<close> is \<open>AList.update\<close>.
  \<open>cleanupTimer\<close> records whether a timer is pending.
\<close>

record Room =
  roomId :: string
  players :: "(ws \<times> PlayerInfo) list"
  nextPlayerId :: int
  cleanupTimer :: bool

definition newRoom :: "string \<Rightarrow> Room" where
  "newRoom rid = \<lparr>roomId = rid, players = [], nextPlayerId = 1, cleanupTimer = False\<rparr>"

definition addPlayer :: "Room \<Rightarrow> ws \<Rightarrow> string \<Rightarrow> int \<Rightarrow> Room \<times> PlayerInfo" where
  "addPlayer room w nm ci =
     (let info = \<lparr>id' = nextPlayerId room, name = nm, characterIndex = js_rem ci 6,
                   status = Idle, seatId = None\<rparr>
      in (room\<lparr>cleanupTimer := False,
               nextPlayerId := nextPlayerId room + 1,
               players := AList.update w info (players room)\<rparr>, info))"

definition getPlayerInfos :: "Room \<Rightarrow> PlayerInfo list" where
  "getPlayerInfos room = map snd (players room)"

text \<open>
  The \<open>RoomManager\<close>.  Both of its maps hold references to the same \<open>Room\<close> objects, so
  the objects live in \<open>heap\<close> and the maps hold references.  \<open>readyStates\<close> gives the \<open>readyState\<close> of
  every socket, and \<open>wire\<close> lists what has been handed to \<open>ws.send\<close>, oldest first
  (\<open>JSON.stringify\<close> is the identity of the model).
\<close>

record RoomManager =
  rooms :: "string \<rightharpoonup> nat"
  wsToRoom :: "ws \<rightharpoonup> nat"
  heap :: "nat \<rightharpoonup> Room"
  nextRef :: nat
  readyStates :: "ws \<Rightarrow> nat"
  wire :: "(ws \<times> ServerMessage) list"

definition sendTo :: "RoomManager \<Rightarrow> ws \<Rightarrow> ServerMessage \<Rightarrow> RoomManager" where
  "sendTo st w msg = (if readyStates st w = 1 then st\<lparr>wire := wire st @ [(w, msg)]\<rparr> else st)"

fun broadcastTo :: "RoomManager \<Rightarrow> (ws \<times> PlayerInfo) list \<Rightarrow> ServerMessage \<Rightarrow> ws option \<Rightarrow> RoomManager" where
  "broadcastTo st [] msg exclude = st"
| "broadcastTo st ((w, info) # ps) msg exclude =
     broadcastTo (if Some w \<noteq> exclude \<and> readyStates st w = 1
                  then st\<lparr>wire := wire st @ [(w, msg)]\<rparr> else st) ps msg exclude"

definition broadcast :: "RoomManager \<Rightarrow> Room \<Rightarrow> ServerMessage \<Rightarrow> ws option \<Rightarrow> RoomManager" where
  "broadcast st room msg exclude = broadcastTo st (players room) msg exclude"

text \<open>
  The loop \<open>do { roomId = generateRoomId() } while (this.rooms.has(roomId))\<close>.  Nothing
  bounds the number of rounds, so not returning is the value \<open>None\<close>.  The result is the
  identifier and the number of random draws made.
\<close>

partial_function (option) freshRoomId :: "(string \<rightharpoonup> nat) \<Rightarrow> (nat \<Rightarrow> real) \<Rightarrow> nat \<Rightarrow> (string \<times> nat) option" where
  "freshRoomId rs rnd k =
     (let rid = generateRoomId rnd k
      in if rs rid \<noteq> None then freshRoomId rs rnd (k + 6) else Some (rid, k + 6))"

definition handleCreateRoom ::
  "RoomManager \<Rightarrow> (nat \<Rightarrow> real) \<Rightarrow> nat \<Rightarrow> ws \<Rightarrow> string \<Rightarrow> int \<Rightarrow> (RoomManager \<times> string \<times> nat) option" where
  "handleCreateRoom st rnd k w playerName ci =
     (case freshRoomId (rooms st) rnd k of
        None \<Rightarrow> None
      | Some (rid, k') \<Rightarrow>
          (let r = nextRef st;
               (room, playerInfo) = addPlayer (newRoom rid) w playerName ci;
               st1 = st\<lparr>rooms := (rooms st)(rid \<mapsto> r),
                        heap := (heap st)(r \<mapsto> room),
                        nextRef := Suc r,
                        wsToRoom := (wsToRoom st)(w \<mapsto> r)\<rparr>
           in Some (sendTo st1 w (RoomJoined rid (id' playerInfo) [playerInfo]), rid, k')))"

definition handleJoinRoom :: "RoomManager \<Rightarrow> ws \<Rightarrow> string \<Rightarrow> string \<Rightarrow> int \<Rightarrow> RoomManager" where
  "handleJoinRoom st w rid playerName ci =
     (case rooms st rid of
        None \<Rightarrow> sendTo st w (Error (''Room '' @ rid @ '' not found''))
      | Some r \<Rightarrow>
          (case heap st r of
             None \<Rightarrow> st
           | Some room0 \<Rightarrow>
               (let existingPlayers = getPlayerInfos room0;
                    (room, playerInfo) = addPlayer room0 w playerName ci;
                    st1 = st\<lparr>heap := (heap st)(r \<mapsto> room), wsToRoom := (wsToRoom st)(w \<mapsto> r)\<rparr>;
                    st2 = sendTo st1 w (RoomJoined rid (id' playerInfo) (existingPlayers @ [playerInfo]))
                in broadcast st2 room (PlayerJoined playerInfo) (Some w))))"

section \<open>The WebSocket client (webview-ui/src/network/wsClient.ts)\<close>

text \<open>
  The browser's socket object: its \<open>readyState\<close> (0 connecting, 1 open, 2 closing,
  3 closed) and what has been handed to its \<open>send\<close>, oldest first.
\<close>

record Socket =
  readyState :: nat
  sent :: "ClientMessage list"

text \<open>The fields of \<open>WsClient\<close>.  A timer field records whether a timer is pending.  The
  three callbacks are set by the hook and do not touch the client's fields.\<close>

record WsClient =
  ws :: "Socket option"
  pendingMessages :: "ClientMessage list"
  shouldReconnect :: bool
  pingTimer :: bool
  reconnectTimer :: bool

definition newWsClient :: WsClient where
  "newWsClient = \<lparr>ws = None, pendingMessages = [], shouldReconnect = False,
                    pingTimer = False, reconnectTimer = False\<rparr>"

definition send :: "WsClient \<Rightarrow> ClientMessage \<Rightarrow> WsClient" where
  "send c msg =
     (case ws c of
        None \<Rightarrow> c
      | Some s \<Rightarrow> if readyState s = OPEN then c\<lparr>ws := Some (s\<lparr>sent := sent s @ [msg]\<rparr>)\<rparr> else c)"

definition isConnected :: "WsClient \<Rightarrow> bool" where
  "isConnected c = (case ws c of None \<Rightarrow> False | Some s \<Rightarrow> readyState s = OPEN)"

definition cleanup :: "WsClient \<Rightarrow> WsClient" where
  "cleanup c = c\<lparr>pingTimer := False, reconnectTimer := False, ws := None\<rparr>"

text \<open>\<open>doConnect\<close>; \<open>throws\<close> says whether the \<open>WebSocket\<close> constructor throws.\<close>

definition doConnect :: "WsClient \<Rightarrow> bool \<Rightarrow> WsClient" where
  "doConnect c throws =
     (if ws c \<noteq> None then c
      else if throws then (if shouldReconnect c then c\<lparr>reconnectTimer := True\<rparr> else c)
      else c\<lparr>ws := Some \<lparr>readyState = 0, sent = []\<rparr>\<rparr>)"

definition connect :: "WsClient \<Rightarrow> bool \<Rightarrow> WsClient" where
  "connect c throws = doConnect (c\<lparr>shouldReconnect := True\<rparr>) throws"

definition disconnect :: "WsClient \<Rightarrow> WsClient" where
  "disconnect c =
     (let c1 = cleanup (c\<lparr>shouldReconnect := False\<rparr>)
      in if ws c1 \<noteq> None then c1\<lparr>ws := None\<rparr> else c1)"

text \<open>The socket's \<open>onopen\<close> handler: the pending messages go through \<open>send\<close> in order,
  the buffer is emptied and the ping timer starts.\<close>

definition onopen :: "WsClient \<Rightarrow> WsClient" where
  "onopen c =
     (let c1 = foldl send c (pendingMessages c);
          c2 = c1\<lparr>pendingMessages := []\<rparr>
      in c2\<lparr>pingTimer := True\<rparr>)"

definition onclose :: "WsClient \<Rightarrow> WsClient" where
  "onclose c =
     (let c1 = cleanup c
      in if shouldReconnect c1 then c1\<lparr>reconnectTimer := True\<rparr> else c1)"

text \<open>
  Everything that can happen to the client: a call of one of its methods, a change of the
  socket's \<open>readyState\<close> by the browser, one of the socket's handlers running, the ping
  interval firing (it sends \<open>{type: 'ping'}\<close>) and the reconnect timeout firing.
\<close>

datatype WsEvent =
    CallConnect bool
  | CallSend ClientMessage
  | CallDisconnect
  | ReadyStateChanges nat
  | SocketOpens
  | SocketCloses
  | PingFires
  | ReconnectFires bool

fun wsStep :: "WsClient \<Rightarrow> WsEvent \<Rightarrow> WsClient" where
  "wsStep c (CallConnect throws) = connect c throws"
| "wsStep c (CallSend msg) = send c msg"
| "wsStep c CallDisconnect = disconnect c"
| "wsStep c (ReadyStateChanges n) =
     (case ws c of None \<Rightarrow> c | Some s \<Rightarrow> c\<lparr>ws := Some (s\<lparr>readyState := n\<rparr>)\<rparr>)"
| "wsStep c SocketOpens = onopen c"
| "wsStep c SocketCloses = onclose c"
| "wsStep c PingFires = (if pingTimer c then send c Ping else c)"
| "wsStep c (ReconnectFires throws) =
     (if reconnectTimer c then doConnect (c\<lparr>reconnectTimer := False\<rparr>) throws else c)"

section \<open>Tile map and pathfinder (office/layout/tileMap.ts)\<close>

text \<open>
  The module \<open>tileMap.ts\<close> (\<open>isWalkable\<close>, \<open>findPath\<close>) and the class \<open>OfficeState\<close>
  are used by the sources at hand but are not among them.  The definitions of this section
  and the next follow the specification's description of them.  A cell is \<open>(col, row)\<close>.
\<close>

type_synonym cell = "int \<times> int"

text \<open>Modelled from the spec: the per-cell classification of the Tile Map (section 3),
  \<open>floor\<close>, \<open>wall\<close>, \<open>furniture-blocking\<close>, \<open>furniture-walkable\<close>, \<open>seat-anchor\<close>.\<close>

datatype TileKind = Floor | Wall | FurnitureBlocking | FurnitureWalkable | SeatAnchor

text \<open>Modelled from the spec: a seat binds a seat identifier to its anchor cell (the desk,
  blocked) and the adjacent cell a seated character occupies (the chair, walkable).\<close>

record Seat =
  anchor :: cell
  chair :: cell

text \<open>Modelled from the spec: the Tile Map of section 3, \<open>cols \<times> rows\<close> dimensions, a
  classification of every cell, and the mapping from seat identifiers to seats.\<close>

record TileMap =
  cols :: nat
  rows :: nat
  tileAt :: "cell \<Rightarrow> TileKind"
  seats :: "string \<rightharpoonup> Seat"

text \<open>Modelled from the spec: \<open>isWalkable(col, row)\<close> of section 4.1.  A cell is walkable
  when it lies in the grid and is floor or walkable furniture; walls, blocking furniture and
  seat anchors (desks) are blocked.\<close>

definition isWalkable :: "TileMap \<Rightarrow> cell \<Rightarrow> bool" where
  "isWalkable tm c =
     (0 \<le> fst c \<and> fst c < int (cols tm) \<and> 0 \<le> snd c \<and> snd c < int (rows tm) \<and>
      (tileAt tm c = Floor \<or> tileAt tm c = FurnitureWalkable))"

text \<open>Modelled from the spec: \<open>neighbors(col, row)\<close> of section 4.1, the up to four
  orthogonal walkable cells.\<close>

definition neighbors :: "TileMap \<Rightarrow> cell \<Rightarrow> cell list" where
  "neighbors tm c =
     filter (isWalkable tm)
       [(fst c, snd c - 1), (fst c, snd c + 1), (fst c - 1, snd c), (fst c + 1, snd c)]"

text \<open>Modelled from the spec: one expansion step of the breadth-first search of section
  4.2.  Every neighbour not yet visited is marked visited, gets the expanded cell as its
  predecessor and joins the end of the frontier queue.\<close>

fun visitNeighbors ::
  "cell \<Rightarrow> cell list \<Rightarrow> cell list \<times> cell set \<times> (cell \<rightharpoonup> cell) \<Rightarrow> cell list \<times> cell set \<times> (cell \<rightharpoonup> cell)" where
  "visitNeighbors c [] s = s"
| "visitNeighbors c (n # ns) (queue, visited, pred) =
     (if n \<in> visited then visitNeighbors c ns (queue, visited, pred)
      else visitNeighbors c ns (queue @ [n], insert n visited, pred(n \<mapsto> c)))"

text \<open>The walkable cells of a map.  There are finitely many, and every expansion step that
  visits a new cell visits a walkable one: this bounds the search.\<close>

definition walkableCells :: "TileMap \<Rightarrow> cell set" where
  "walkableCells tm = {c. isWalkable tm c}"

lemma finite_walkableCells: "finite (walkableCells tm)"
proof -
  have "walkableCells tm \<subseteq> {0..<int (cols tm)} \<times> {0..<int (rows tm)}"
    by (auto simp: walkableCells_def isWalkable_def)
  then show ?thesis
    by (rule finite_subset) simp
qed

lemma neighbors_walkable: "set (neighbors tm c) \<subseteq> walkableCells tm"
  by (auto simp: neighbors_def walkableCells_def)

lemma visitNeighbors_grows:
  "visitNeighbors c ns (q, vis, pred) = (q', vis', pred') \<Longrightarrow>
     vis \<subseteq> vis' \<and> vis' \<subseteq> vis \<union> set ns \<and> (vis' = vis \<longrightarrow> q' = q)"
proof (induction ns arbitrary: q vis pred)
  case Nil
  then show ?case by simp
next
  case (Cons n ns)
  show ?case
  proof (cases "n \<in> vis")
    case True
    with Cons.prems have "visitNeighbors c ns (q, vis, pred) = (q', vis', pred')"
      by simp
    from Cons.IH [OF this] show ?thesis
      by auto
  next
    case False
    with Cons.prems have "visitNeighbors c ns (q @ [n], insert n vis, pred(n \<mapsto> c)) = (q', vis', pred')"
      by simp
    from Cons.IH [OF this] False show ?thesis
      by auto
  qed
qed

text \<open>Modelled from the spec: the breadth-first search of section 4.2 over 4-connected
  walkable neighbours, "expanding a frontier queue, recording a predecessor map,
  terminating on first dequeue of the goal".  The result is the predecessor map when the goal
  is dequeued and \<open>None\<close> when the queue runs empty.\<close>

function bfs :: "TileMap \<Rightarrow> cell \<Rightarrow> cell list \<Rightarrow> cell set \<Rightarrow> (cell \<rightharpoonup> cell) \<Rightarrow> (cell \<rightharpoonup> cell) option" where
  "bfs tm goal [] visited pred = None"
| "bfs tm goal (c # queue) visited pred =
     (if c = goal then Some pred
      else (case visitNeighbors c (neighbors tm c) (queue, visited, pred) of
              (queue', visited', pred') \<Rightarrow> bfs tm goal queue' visited' pred'))"
  by pat_completeness auto
termination
proof (relation "inv_image (less_than <*lex*> less_than)
    (\<lambda>(tm, goal, queue, visited, pred). (card (walkableCells tm - visited), length queue))",
    goal_cases)
  case 1
  show ?case
    by (intro wf_inv_image wf_lex_prod wf_less_than)
next
  case (2 tm goal c queue visited pred q' y vis' pred')
  then have v: "visitNeighbors c (neighbors tm c) (queue, visited, pred) = (q', vis', pred')"
    by simp
  note g = visitNeighbors_grows [OF v]
  show ?case
  proof (cases "vis' = visited")
    case True
    with g show ?thesis
      by simp
  next
    case False
    with g obtain n where n: "n \<in> vis'" "n \<notin> visited" "n \<in> set (neighbors tm c)"
      by blast
    with neighbors_walkable [of tm c] have "n \<in> walkableCells tm - visited" "n \<notin> walkableCells tm - vis'"
      by auto
    moreover from g have "walkableCells tm - vis' \<subseteq> walkableCells tm - visited"
      by blast
    ultimately have "walkableCells tm - vis' \<subset> walkableCells tm - visited"
      by blast
    then have "card (walkableCells tm - vis') < card (walkableCells tm - visited)"
      by (simp add: finite_walkableCells psubset_card_mono)
    then show ?thesis
      by simp
  qed
qed

text \<open>Modelled from the spec: the path read off the predecessor map, from the goal back to
  the start.  The path lists the cells to step on, the goal last and the start left out
  (the spec's scenario walks from (0,0) to (0,9) on a path of length 9).  Following
  predecessors is a loop with no bound of its own, so not returning is \<open>None\<close>.\<close>

partial_function (option) reconstructPath :: "(cell \<rightharpoonup> cell) \<Rightarrow> cell \<Rightarrow> cell \<Rightarrow> cell list \<Rightarrow> cell list option" where
  "reconstructPath pred start cur acc =
     (if cur = start then Some acc
      else (case pred cur of
              None \<Rightarrow> None
            | Some p \<Rightarrow> reconstructPath pred start p (cur # acc)))"

text \<open>Modelled from the spec: \<open>findPath(from, to) -> ordered sequence of cells | none\<close> of
  section 4.2.  For \<open>from = to\<close> the result is the empty path ("empty path,
  already-arrived"; section 8: \<open>findPath(A,A) = empty path\<close>); when the search does not reach
  \<open>to\<close> the result is \<open>none\<close>.\<close>

definition findPath :: "TileMap \<Rightarrow> cell \<Rightarrow> cell \<Rightarrow> cell list option" where
  "findPath tm start goal =
     (if start = goal then Some []
      else (case bfs tm goal [start] {start} Map.empty of
              None \<Rightarrow> None
            | Some pred \<Rightarrow> reconstructPath pred start goal []))"

text \<open>
  The yardstick for the pathfinder, independent of the search: \<open>b\<close> is reachable from \<open>a\<close>
  when a sequence of steps, each to a walkable orthogonal neighbour, leads from \<open>a\<close> to \<open>b\<close>.
\<close>

definition reachable :: "TileMap \<Rightarrow> cell \<Rightarrow> cell \<Rightarrow> bool" where
  "reachable tm a b = ((a, b) \<in> {(u, v). v \<in> set (neighbors tm u)}\<^sup>*)"

text \<open>\<open>chain pred start v p\<close>: following the predecessors from \<open>v\<close> leads to \<open>start\<close>, and \<open>p\<close>
  lists the cells on the way in walking order, \<open>v\<close> last and \<open>start\<close> left out.\<close>

inductive chain :: "(cell \<rightharpoonup> cell) \<Rightarrow> cell \<Rightarrow> cell \<Rightarrow> cell list \<Rightarrow> bool" where
  chain_start: "chain pred start start []"
| chain_step: "chain pred start u p \<Longrightarrow> pred v = Some u \<Longrightarrow> v \<noteq> start \<Longrightarrow> chain pred start v (p @ [v])"

text \<open>The invariant of the search: the queue holds visited cells; every visited cell is
  reachable from the start and has a chain of predecessors back to it; and every visited cell
  that has left the queue is not the goal and has all its walkable neighbours visited.\<close>

definition bfsInvariant ::
  "TileMap \<Rightarrow> cell \<Rightarrow> cell \<Rightarrow> cell list \<Rightarrow> cell set \<Rightarrow> (cell \<rightharpoonup> cell) \<Rightarrow> bool" where
  "bfsInvariant tm start goal queue visited pred =
     (set queue \<subseteq> visited \<and> start \<in> visited \<and> dom pred \<subseteq> visited \<and>
      (\<forall>v \<in> visited. reachable tm start v) \<and>
      (\<forall>v \<in> visited. \<exists>p. chain pred start v p) \<and>
      (\<forall>v \<in> visited - set queue. v \<noteq> goal \<and> set (neighbors tm v) \<subseteq> visited))"

section \<open>The office engine (office/engine/officeState.ts)\<close>

text \<open>Modelled from the spec: the states of the character state machine of section 4.3,
  \<open>idle\<close> (here \<open>Standing\<close>, to tell it from the status \<open>Idle\<close>), \<open>walking\<close>,
  \<open>sitting-idle\<close>, \<open>sitting-active\<close>.\<close>

datatype CharacterState = Standing | Walking | SittingIdle | SittingActive

text \<open>
  Modelled from the spec: the Character of section 3, its identity, variant, seat binding,
  tile coordinate, queued path, state and the flag that says whether it is driven by
  inbound position events.  The behavioural status is held the way the callers at hand set
  and read it: \<open>isActive\<close> (coding or reading), \<open>currentTool\<close> (the animation's tool name)
  and \<open>waitingBubble\<close> (shown when the participant is away).  The pixel offset and the
  facing direction belong to the per-tick animation, which is not modelled.
\<close>

record Character =
  charId :: int
  palette :: int
  isActive :: bool
  currentTool :: "string option"
  waitingBubble :: bool
  seat :: "string option"
  tileCol :: int
  tileRow :: int
  path :: "cell list"
  charState :: CharacterState
  remoteControlled :: bool

text \<open>Modelled from the spec: the Office State Engine of section 4.4 owns the characters
  and the Tile Map.  \<open>characters\<close> is a JavaScript \<open>Map\<close> keyed by the character's id, an
  association list in insertion order.  \<open>spawn\<close> is the cell a character without a seat is
  created at.\<close>

record OfficeState =
  characters :: "(int \<times> Character) list"
  tileMap :: TileMap
  spawn :: cell

text \<open>\<open>os.characters.get(id)\<close> and \<open>os.characters.has(id)\<close>.\<close>

definition getCharacter :: "OfficeState \<Rightarrow> int \<Rightarrow> Character option" where
  "getCharacter os i = map_of (characters os) i"

text \<open>The ids of the characters the engine holds: the locally tracked character set.\<close>

definition tracked :: "OfficeState \<Rightarrow> int set" where
  "tracked os = fst ` set (characters os)"

text \<open>Modelled from the spec: every mutation that names a character changes that character
  in place and is a silent no-op when the id is not present (section 7, unknown entity).\<close>

definition updateCharacter :: "OfficeState \<Rightarrow> int \<Rightarrow> (Character \<Rightarrow> Character) \<Rightarrow> OfficeState" where
  "updateCharacter os i f =
     os\<lparr>characters := map (\<lambda>(k, ch). if k = i then (k, f ch) else (k, ch)) (characters os)\<rparr>"

text \<open>Modelled from the spec: \<open>addCharacter(id, variant, seatId?, isLocal)\<close> "creates a
  Character at a spawn cell (or the seat's chair cell if seatId given); fails silently
  (no-op) if id already present".  The callers pass a hue shift as third argument, which
  the specification does not mention.\<close>

definition addAgent :: "OfficeState \<Rightarrow> int \<Rightarrow> int \<Rightarrow> int \<Rightarrow> string option \<Rightarrow> bool \<Rightarrow> OfficeState" where
  "addAgent os i pal hueShift sid isLocal =
     (if map_of (characters os) i \<noteq> None then os
      else
        (let pos = (case sid of
                     None \<Rightarrow> spawn os
                   | Some s \<Rightarrow> (case seats (tileMap os) s of None \<Rightarrow> spawn os | Some st \<Rightarrow> chair st));
             ch = \<lparr>charId = i, palette = pal, isActive = False, currentTool = None,
                   waitingBubble = False, seat = sid, tileCol = fst pos, tileRow = snd pos,
                   path = [], charState = Standing, remoteControlled = \<not> isLocal\<rparr>
         in os\<lparr>characters := characters os @ [(i, ch)]\<rparr>))"

text \<open>Modelled from the spec: \<open>removeCharacter(id)\<close> "destroys the Character; no-op if
  absent".\<close>

definition removeAgent :: "OfficeState \<Rightarrow> int \<Rightarrow> OfficeState" where
  "removeAgent os i = os\<lparr>characters := filter (\<lambda>(k, ch). k \<noteq> i) (characters os)\<rparr>"

text \<open>Modelled from the spec: the flag of a remotely driven character, whose paths are only
  ever assigned by inbound synchronization events.\<close>

definition setRemoteControlled :: "OfficeState \<Rightarrow> int \<Rightarrow> bool \<Rightarrow> OfficeState" where
  "setRemoteControlled os i v = updateCharacter os i (\<lambda>ch. ch\<lparr>remoteControlled := v\<rparr>)"

text \<open>Modelled from the spec: \<open>teleportTo(id, col, row)\<close> "bypasses pathing; sets the tile
  coordinate and clears any queued path".\<close>

definition teleportToTile :: "OfficeState \<Rightarrow> int \<Rightarrow> int \<Rightarrow> int \<Rightarrow> OfficeState" where
  "teleportToTile os i col row =
     updateCharacter os i (\<lambda>ch. ch\<lparr>tileCol := col, tileRow := row, path := []\<rparr>)"

text \<open>Modelled from the spec: the distance in tiles, counted along rows and columns
  (Manhattan distance).\<close>

definition manhattan :: "cell \<Rightarrow> cell \<Rightarrow> int" where
  "manhattan a b = \<bar>fst a - fst b\<bar> + \<bar>snd a - snd b\<bar>"

text \<open>Modelled from the spec: of the cells \<open>best # cs\<close> the one nearest to \<open>origin\<close>, the
  earliest of them when several are equally near.\<close>

fun nearestCell :: "cell \<Rightarrow> cell \<Rightarrow> cell list \<Rightarrow> cell" where
  "nearestCell origin best [] = best"
| "nearestCell origin best (c # cs) =
     nearestCell origin (if manhattan origin c < manhattan origin best then c else best) cs"

text \<open>Modelled from the spec: the edge case of section 4.1, "a requested destination that is
  itself blocked is redirected to the nearest walkable cell adjacent to it (used for walk to
  seat where the seat anchor is the desk, not the chair)".  The walkable cells adjacent to
  the destination are its \<open>neighbors\<close>; nearest is read as nearest to the cell the walker
  stands on.  A walkable destination is not redirected, and neither is a blocked one that has
  no walkable cell beside it.\<close>

definition redirectDestination :: "TileMap \<Rightarrow> cell \<Rightarrow> cell \<Rightarrow> cell" where
  "redirectDestination tm origin target =
     (if isWalkable tm target then target
      else (case neighbors tm target of
              [] \<Rightarrow> target
            | c # cs \<Rightarrow> nearestCell origin c cs))"

text \<open>Modelled from the spec: \<open>moveTo(id, col, row)\<close> "computes a path via the Pathfinder
  from the character's current cell to the target and assigns it; if unreachable, the call
  is a no-op", with the redirection of a blocked destination of section 4.1.  A character
  that is assigned a path with steps in it walks.\<close>

definition walkCharacter :: "TileMap \<Rightarrow> cell \<Rightarrow> Character \<Rightarrow> Character" where
  "walkCharacter tm target ch =
     (case findPath tm (tileCol ch, tileRow ch)
             (redirectDestination tm (tileCol ch, tileRow ch) target) of
        None \<Rightarrow> ch
      | Some p \<Rightarrow> ch\<lparr>path := p, charState := (if p = [] then charState ch else Walking)\<rparr>)"

text \<open>Modelled from the spec: \<open>moveTo(id, col, row)\<close> on the engine, a silent no-op for an
  id that is not present.\<close>

definition walkToTile :: "OfficeState \<Rightarrow> int \<Rightarrow> int \<Rightarrow> int \<Rightarrow> OfficeState" where
  "walkToTile os i col row = updateCharacter os i (walkCharacter (tileMap os) (col, row))"

text \<open>Modelled from the spec: \<open>setStatus(id, status)\<close> "updates behavioral status;
  re-evaluates sitting sub-state if seated".  The callers split it into three calls: whether
  the participant is active (a seated character is \<open>sitting-active\<close> exactly when it is),
  the tool that is animated, and the waiting bubble of a participant who is away.\<close>

definition setAgentActive :: "OfficeState \<Rightarrow> int \<Rightarrow> bool \<Rightarrow> OfficeState" where
  "setAgentActive os i active =
     updateCharacter os i
       (\<lambda>ch. ch\<lparr>isActive := active,
                 charState := (if charState ch = SittingIdle \<or> charState ch = SittingActive
                               then (if active then SittingActive else SittingIdle)
                               else charState ch)\<rparr>)"

text \<open>Modelled from the spec: the part of \<open>setStatus\<close> that sets the animated tool.\<close>

definition setAgentTool :: "OfficeState \<Rightarrow> int \<Rightarrow> string option \<Rightarrow> OfficeState" where
  "setAgentTool os i tool = updateCharacter os i (\<lambda>ch. ch\<lparr>currentTool := tool\<rparr>)"

text \<open>Modelled from the spec: the part of \<open>setStatus\<close> that marks a participant who is
  away.\<close>

definition showWaitingBubble :: "OfficeState \<Rightarrow> int \<Rightarrow> OfficeState" where
  "showWaitingBubble os i = updateCharacter os i (\<lambda>ch. ch\<lparr>waitingBubble := True\<rparr>)"

text \<open>Modelled from the spec: \<open>setSeat(id, seatId)\<close> "clears old seat binding if any,
  assigns new one, and issues a path to the seat's chair cell".  A seat identifier the Tile
  Map does not know has no chair cell to walk to.\<close>

definition reassignSeat :: "OfficeState \<Rightarrow> int \<Rightarrow> string \<Rightarrow> OfficeState" where
  "reassignSeat os i sid =
     updateCharacter os i
       (\<lambda>ch. (case seats (tileMap os) sid of
                 None \<Rightarrow> ch\<lparr>seat := Some sid\<rparr>
               | Some st \<Rightarrow> walkCharacter (tileMap os) (chair st) (ch\<lparr>seat := Some sid\<rparr>)))"

section \<open>The multiplayer hook over Supabase Realtime (hooks/useWebSocket.ts, with position sync)\<close>

definition statusToTool :: "PlayerStatus \<Rightarrow> string option" where
  "statusToTool s = (case s of Coding \<Rightarrow> Some ''Edit'' | Reading \<Rightarrow> Some ''Read'' | Idle \<Rightarrow> None | Afk \<Rightarrow> None)"

definition statusToActive :: "PlayerStatus \<Rightarrow> bool" where
  "statusToActive s = (s = Coding \<or> s = Reading)"

text \<open>
  What each participant tracks in the channel's presence: the fields of \<open>PlayerInfo\<close> and
  its tile.  A peer may track no tile (the handler tests both fields against \<open>undefined\<close>).
\<close>

record PresencePayload = PlayerInfo +
  presenceTileCol :: "int option"
  presenceTileRow :: "int option"

text \<open>
  The hook's React state and the office engine it drives (\<open>getOfficeState()\<close>).  A state
  setter takes effect at once in the model.
\<close>

record Multiplayer =
  roomIdState :: "string option"
  myPlayerIdState :: "int option"
  playersState :: "PlayerInfo list"
  connectedState :: bool
  officeState :: OfficeState

text \<open>\<open>channel.presenceState()\<close> maps every presence key to a list of presences; the
  handler takes the first presence of every key that has one.\<close>

definition firstPresences :: "'a list list \<Rightarrow> 'a list" where
  "firstPresences state = map hd (filter (\<lambda>presences. presences \<noteq> []) state)"

text \<open>The body of the loop "Add new characters" for one presence.\<close>

definition addNewCharacter :: "PlayerInfo \<Rightarrow> int set \<Rightarrow> OfficeState \<Rightarrow> PresencePayload \<Rightarrow> OfficeState" where
  "addNewCharacter myInfo currentIds os p =
     (if id' p \<in> currentIds then os
      else
        (let isMe = (id' p = id' myInfo);
             os1 = addAgent os (id' p) (characterIndex p) 0 (seatId p) isMe;
             os2 = (if \<not> isMe
                    then (let os' = setRemoteControlled os1 (id' p) True
                          in (case presenceTileCol p of
                                None \<Rightarrow> os'
                              | Some c \<Rightarrow> (case presenceTileRow p of
                                             None \<Rightarrow> os'
                                           | Some r \<Rightarrow> teleportToTile os' (id' p) c r)))
                    else os1)
         in if statusToActive (status p)
            then setAgentTool (setAgentActive os2 (id' p) True) (id' p) (statusToTool (status p))
            else os2))"

text \<open>The body of the loop "Remove departed characters (but keep my own)" for one id.\<close>

definition removeDeparted :: "PlayerInfo \<Rightarrow> int set \<Rightarrow> OfficeState \<Rightarrow> int \<Rightarrow> OfficeState" where
  "removeDeparted myInfo presenceIds os i =
     (if i \<notin> presenceIds \<and> i \<noteq> id' myInfo then removeAgent os i else os)"

text \<open>The handler of the presence \<open>sync\<close> event.\<close>

definition presenceSync :: "Multiplayer \<Rightarrow> PlayerInfo \<Rightarrow> PresencePayload list list \<Rightarrow> Multiplayer" where
  "presenceSync m myInfo state =
     (let present = firstPresences state;
          allPlayers = map PlayerInfo.truncate present;
          os = officeState m;
          currentIds = map fst (characters os);
          presenceIds = set (map id' allPlayers);
          os1 = foldl (addNewCharacter myInfo (set currentIds)) os present;
          os2 = foldl (removeDeparted myInfo presenceIds) os1 currentIds
      in m\<lparr>playersState := allPlayers, officeState := os2\<rparr>)"

text \<open>The handler of the broadcast event \<open>status\<close>, with payload \<open>{playerId, status}\<close>.\<close>

definition statusBroadcast :: "Multiplayer \<Rightarrow> PlayerInfo \<Rightarrow> int \<Rightarrow> PlayerStatus \<Rightarrow> Multiplayer" where
  "statusBroadcast m myInfo playerId st =
     (if playerId = id' myInfo then m
      else
        (let os1 = setAgentActive (officeState m) playerId (statusToActive st);
             os2 = setAgentTool os1 playerId (statusToTool st);
             os3 = (if st = Afk then showWaitingBubble os2 playerId else os2)
         in m\<lparr>officeState := os3\<rparr>))"

text \<open>The handler of the broadcast event \<open>move\<close>, with payload
  \<open>{playerId, tileCol, tileRow}\<close>.\<close>

definition moveBroadcast :: "Multiplayer \<Rightarrow> PlayerInfo \<Rightarrow> int \<Rightarrow> int \<Rightarrow> int \<Rightarrow> Multiplayer" where
  "moveBroadcast m myInfo playerId col row =
     (if playerId = id' myInfo then m
      else
        (case getCharacter (officeState m) playerId of
           None \<Rightarrow> m
         | Some ch \<Rightarrow>
             (let dist = \<bar>tileCol ch - col\<bar> + \<bar>tileRow ch - row\<bar>
              in if dist > 10 then m\<lparr>officeState := teleportToTile (officeState m) playerId col row\<rparr>
                 else if dist > 0 then m\<lparr>officeState := walkToTile (officeState m) playerId col row\<rparr>
                 else m)))"

subsection \<open>The position broadcast loop\<close>

definition POSITION_BROADCAST_INTERVAL_MS :: int where
  "POSITION_BROADCAST_INTERVAL_MS = 200"

text \<open>The two refs of the loop, \<open>{col: -1, row: -1}\<close> and 0 at first.\<close>

record BroadcastRefs =
  lastBroadcastPos :: cell
  lastBroadcastTime :: int

definition initialRefs :: BroadcastRefs where
  "initialRefs = \<lparr>lastBroadcastPos = (- 1, - 1), lastBroadcastTime = 0\<rparr>"

text \<open>
  What one animation frame finds: whether \<open>channelRef.current\<close> is set, \<open>myInfoRef.current\<close>,
  the office state, and the value of \<open>Date.now()\<close>.
\<close>

record Frame =
  channelSet :: bool
  myInfoRef :: "PlayerInfo option"
  frameOffice :: OfficeState
  now :: int

text \<open>The payload \<open>{playerId, tileCol, tileRow}\<close> of a \<open>move\<close> broadcast.\<close>

datatype MoveEvent = MoveEvent int int int

text \<open>One run of \<open>tick\<close>: the refs afterwards and the broadcast sent, if any.\<close>

definition tick :: "BroadcastRefs \<Rightarrow> Frame \<Rightarrow> BroadcastRefs \<times> MoveEvent option" where
  "tick refs fr =
     (if \<not> channelSet fr then (refs, None)
      else
        (case myInfoRef fr of
           None \<Rightarrow> (refs, None)
         | Some myInfo \<Rightarrow>
             (case getCharacter (frameOffice fr) (id' myInfo) of
                None \<Rightarrow> (refs, None)
              | Some ch \<Rightarrow>
                  (let posChanged = (tileCol ch \<noteq> fst (lastBroadcastPos refs) \<or>
                                     tileRow ch \<noteq> snd (lastBroadcastPos refs))
                   in if posChanged \<and> now fr - lastBroadcastTime refs \<ge> POSITION_BROADCAST_INTERVAL_MS
                      then (\<lparr>lastBroadcastPos = (tileCol ch, tileRow ch), lastBroadcastTime = now fr\<rparr>,
                            Some (MoveEvent (id' myInfo) (tileCol ch) (tileRow ch)))
                      else (refs, None)))))"

text \<open>The loop over a sequence of animation frames: the broadcasts sent, each with the
  \<open>Date.now()\<close> of its frame, oldest first.\<close>

fun broadcastLoop :: "BroadcastRefs \<Rightarrow> Frame list \<Rightarrow> (int \<times> MoveEvent) list" where
  "broadcastLoop refs [] = []"
| "broadcastLoop refs (fr # frs) =
     (case tick refs fr of
        (refs', None) \<Rightarrow> broadcastLoop refs' frs
      | (refs', Some ev) \<Rightarrow> (now fr, ev) # broadcastLoop refs' frs)"

text \<open>The tile a \<open>move\<close> broadcast reports.\<close>

definition movePos :: "MoveEvent \<Rightarrow> cell" where
  "movePos ev = (case ev of MoveEvent i c r \<Rightarrow> (c, r))"

section \<open>The same hook before position sync (hooks/useWebSocket.ts, earlier revision)\<close>

text \<open>Its presence handler adds a character for every new participant and sets its activity;
  it neither marks it remote-controlled nor places it.  Its status handler is the one above.\<close>

definition addNewCharacter0 :: "PlayerInfo \<Rightarrow> int set \<Rightarrow> OfficeState \<Rightarrow> PlayerInfo \<Rightarrow> OfficeState" where
  "addNewCharacter0 myInfo currentIds os p =
     (if id' p \<in> currentIds then os
      else
        (let skipSpawn = (id' p = id' myInfo);
             os1 = addAgent os (id' p) (characterIndex p) 0 (seatId p) skipSpawn
         in if statusToActive (status p)
            then setAgentTool (setAgentActive os1 (id' p) True) (id' p) (statusToTool (status p))
            else os1))"

definition presenceSync0 :: "Multiplayer \<Rightarrow> PlayerInfo \<Rightarrow> PlayerInfo list list \<Rightarrow> Multiplayer" where
  "presenceSync0 m myInfo state =
     (let allPlayers = firstPresences state;
          os = officeState m;
          currentIds = map fst (characters os);
          presenceIds = set (map id' allPlayers);
          os1 = foldl (addNewCharacter0 myInfo (set currentIds)) os allPlayers;
          os2 = foldl (removeDeparted myInfo presenceIds) os1 currentIds
      in m\<lparr>playersState := allPlayers, officeState := os2\<rparr>)"

section \<open>The multiplayer hook over the relay server (hooks/useWebSocket.ts, WebSocket revision)\<close>

text \<open>The body of the loop of \<open>roomJoined\<close> for one player.\<close>

definition addJoinedPlayer :: "OfficeState \<Rightarrow> PlayerInfo \<Rightarrow> OfficeState" where
  "addJoinedPlayer os p =
     (if getCharacter os (id' p) \<noteq> None then os
      else
        (let os1 = addAgent os (id' p) (characterIndex p) 0 (seatId p) True
         in if statusToActive (status p)
            then setAgentTool (setAgentActive os1 (id' p) True) (id' p) (statusToTool (status p))
            else os1))"

text \<open>The handler the hook gives to \<open>wsClient.setOnMessage\<close>.  No branch sends anything.
  \<open>playerJoined\<close> calls \<open>addAgent\<close> with four arguments, so the fifth is \<open>undefined\<close>.\<close>

fun onServerMessage :: "Multiplayer \<Rightarrow> ServerMessage \<Rightarrow> Multiplayer" where
  "onServerMessage m (RoomJoined rid pid ps) =
     m\<lparr>roomIdState := Some rid, myPlayerIdState := Some pid, playersState := ps,
       officeState := foldl addJoinedPlayer (officeState m) ps\<rparr>"
| "onServerMessage m (PlayerJoined p) =
     m\<lparr>playersState := playersState m @ [p],
       officeState := addAgent (officeState m) (id' p) (characterIndex p) 0 (seatId p) False\<rparr>"
| "onServerMessage m (PlayerLeft pid) =
     m\<lparr>playersState := filter (\<lambda>p. id' p \<noteq> pid) (playersState m),
       officeState := removeAgent (officeState m) pid\<rparr>"
| "onServerMessage m (PlayerStatusChanged pid st) =
     (let os1 = setAgentActive (officeState m) pid (statusToActive st);
          os2 = setAgentTool os1 pid (statusToTool st);
          os3 = (if st = Afk then showWaitingBubble os2 pid else os2)
      in m\<lparr>playersState := map (\<lambda>p. if id' p = pid then p\<lparr>status := st\<rparr> else p) (playersState m),
           officeState := os3\<rparr>)"
| "onServerMessage m (PlayerSeatChanged pid sid) =
     m\<lparr>playersState := map (\<lambda>p. if id' p = pid then p\<lparr>seatId := Some sid\<rparr> else p) (playersState m),
       officeState := reassignSeat (officeState m) pid sid\<rparr>"
| "onServerMessage m Pong = m"
| "onServerMessage m (Error message) = m"

section \<open>Concrete scenarios\<close>

text \<open>A server with one live room, and a random source whose first six draws are 0 and
  whose later draws are 1/2.\<close>

definition demoServer :: RoomManager where
  "demoServer = \<lparr>rooms = [''AAAAAA'' \<mapsto> 0], wsToRoom = Map.empty,
                  heap = [0 \<mapsto> newRoom ''AAAAAA''], nextRef = 1,
                  readyStates = (\<lambda>w. 1), wire = []\<rparr>"

definition demoRandom :: "nat \<Rightarrow> real" where
  "demoRandom k = (if k < 6 then 0 else 1 / 2)"

text \<open>The same server when the socket 7 is closing.\<close>

definition closingServer :: RoomManager where
  "closingServer = demoServer\<lparr>readyStates := (\<lambda>w. if w = 7 then 2 else 1)\<rparr>"

text \<open>A corridor of three floor cells, and the same corridor with a wall in the middle.\<close>

definition corridor :: TileMap where
  "corridor = \<lparr>cols = 3, rows = 1, tileAt = (\<lambda>c. Floor), seats = Map.empty\<rparr>"

definition walledCorridor :: TileMap where
  "walledCorridor = \<lparr>cols = 3, rows = 1, tileAt = (\<lambda>c. if c = (1, 0) then Wall else Floor),
                       seats = Map.empty\<rparr>"

text \<open>The local participant 1 and a remote participant 2, both standing on the cell (0, 0).\<close>

definition ann :: PlayerInfo where
  "ann = \<lparr>id' = 1, name = ''ann'', characterIndex = 0, status = Idle, seatId = None\<rparr>"

definition standingAt :: "int \<Rightarrow> cell \<Rightarrow> bool \<Rightarrow> Character" where
  "standingAt i c remote =
     \<lparr>charId = i, palette = 0, isActive = False, currentTool = None, waitingBubble = False,
      seat = None, tileCol = fst c, tileRow = snd c, path = [], charState = Standing,
      remoteControlled = remote\<rparr>"

definition officeOn :: "TileMap \<Rightarrow> OfficeState" where
  "officeOn tm = \<lparr>characters = [(1, standingAt 1 (0, 0) False), (2, standingAt 2 (0, 0) True)],
                   tileMap = tm, spawn = (0, 0)\<rparr>"

definition clientOn :: "TileMap \<Rightarrow> Multiplayer" where
  "clientOn tm = \<lparr>roomIdState = Some ''AAAAAA'', myPlayerIdState = Some 1, playersState = [ann],
                   connectedState = True, officeState = officeOn tm\<rparr>"

text \<open>A presence snapshot with the local participant, a newcomer 3 who is coding on the cell
  (2, 0), and a key without presences.  Participant 2 is not in it.\<close>

definition snapshot :: "PresencePayload list list" where
  "snapshot =
     [[\<lparr>id' = 1, name = ''ann'', characterIndex = 0, status = Idle, seatId = None,
        presenceTileCol = Some 0, presenceTileRow = Some 0\<rparr>],
      [],
      [\<lparr>id' = 3, name = ''cy'', characterIndex = 2, status = Coding, seatId = None,
        presenceTileCol = Some 2, presenceTileRow = Some 0\<rparr>]]"

text \<open>Three animation frames: the local participant stands on (0, 0) at time 1000, and is
  seen on (1, 0) at times 1100 and 1250.\<close>

definition frames :: "Frame list" where
  "frames =
     [\<lparr>channelSet = True, myInfoRef = Some ann, frameOffice = officeOn corridor, now = 1000\<rparr>,
      \<lparr>channelSet = True, myInfoRef = Some ann,
        frameOffice = teleportToTile (officeOn corridor) 1 1 0, now = 1100\<rparr>,
      \<lparr>channelSet = True, myInfoRef = Some ann,
        frameOffice = teleportToTile (officeOn corridor) 1 1 0, now = 1250\<rparr>]"

text \<open>The corridor with a desk, a seat anchor, on its far end.\<close>

definition deskCorridor :: TileMap where
  "deskCorridor = \<lparr>cols = 3, rows = 1, tileAt = (\<lambda>c. if c = (2, 0) then SeatAnchor else Floor),
                     seats = Map.empty\<rparr>"

section \<open>Properties of the office engine\<close>

lemma getCharacter_updateCharacter:
  "getCharacter (updateCharacter os i f) j =
     (if j = i then map_option f (getCharacter os i) else getCharacter os j)"
proof -
  have "map_of (map (\<lambda>(k, ch). if k = i then (k, f ch) else (k, ch)) xs) j =
          (if j = i then map_option f (map_of xs i) else map_of xs j)" for xs
    by (induction xs) auto
  then show ?thesis
    by (simp add: getCharacter_def updateCharacter_def)
qed

lemma updateCharacter_twice:
  "updateCharacter (updateCharacter os i f) i g = updateCharacter os i (\<lambda>ch. g (f ch))"
proof -
  have "map (\<lambda>(k, ch). if k = i then (k, g ch) else (k, ch))
          (map (\<lambda>(k, ch). if k = i then (k, f ch) else (k, ch)) xs) =
        map (\<lambda>(k, ch). if k = i then (k, g (f ch)) else (k, ch)) xs" for xs :: "(int \<times> Character) list"
    by (induction xs) auto
  then show ?thesis
    by (simp add: updateCharacter_def)
qed

lemma updateCharacter_idem:
  "(\<And>ch. f (f ch) = f ch) \<Longrightarrow> updateCharacter (updateCharacter os i f) i f = updateCharacter os i f"
  by (simp add: updateCharacter_twice)

lemma tileMap_updateCharacter: "tileMap (updateCharacter os i f) = tileMap os"
  by (simp add: updateCharacter_def)

lemma redirectDestination_walkable: "isWalkable tm target \<Longrightarrow> redirectDestination tm origin target = target"
  by (simp add: redirectDestination_def)

lemma walkCharacter_twice:
  "walkCharacter tm target (walkCharacter tm target ch) = walkCharacter tm target ch"
  by (cases "findPath tm (tileCol ch, tileRow ch) (redirectDestination tm (tileCol ch, tileRow ch) target)")
     (simp_all add: walkCharacter_def)

lemma walkCharacter_seat:
  "walkCharacter tm target (walkCharacter tm target ch\<lparr>seat := s\<rparr>) = walkCharacter tm target ch\<lparr>seat := s\<rparr>"
  "walkCharacter tm target (ch\<lparr>seat := s\<rparr>) = walkCharacter tm target ch\<lparr>seat := s\<rparr>"
  by (cases "findPath tm (tileCol ch, tileRow ch) (redirectDestination tm (tileCol ch, tileRow ch) target)";
      simp add: walkCharacter_def)+

lemma reassignSeat_twice: "reassignSeat (reassignSeat os i sid) i sid = reassignSeat os i sid"
proof (cases "seats (tileMap os) sid")
  case None
  then show ?thesis
    by (simp add: reassignSeat_def tileMap_updateCharacter updateCharacter_idem)
next
  case (Some st)
  have "walkCharacter (tileMap os) (chair st) (walkCharacter (tileMap os) (chair st) (ch\<lparr>seat := Some sid\<rparr>)\<lparr>seat := Some sid\<rparr>) =
        walkCharacter (tileMap os) (chair st) (ch\<lparr>seat := Some sid\<rparr>)" for ch
    by (simp add: walkCharacter_seat walkCharacter_twice)
  with Some show ?thesis
    by (simp add: reassignSeat_def tileMap_updateCharacter updateCharacter_idem)
qed

lemma tracked_updateCharacter: "tracked (updateCharacter os i f) = tracked os"
  by (force simp: tracked_def updateCharacter_def split: if_splits prod.splits)

lemma tracked_addAgent: "tracked (addAgent os i pal hue sid loc) = insert i (tracked os)"
  by (auto simp: tracked_def addAgent_def Let_def dest: map_of_SomeD weak_map_of_SomeI
      simp: map_of_eq_None_iff)

lemma tracked_removeAgent: "tracked (removeAgent os i) = tracked os - {i}"
  by (force simp: tracked_def removeAgent_def)

lemmas tracked_setters =
  setRemoteControlled_def teleportToTile_def setAgentActive_def setAgentTool_def tracked_updateCharacter

section \<open>Properties of the pathfinder\<close>

lemma reachable_refl: "reachable tm a a"
  by (simp add: reachable_def)

lemma reachable_step: "reachable tm a u \<Longrightarrow> v \<in> set (neighbors tm u) \<Longrightarrow> reachable tm a v"
  unfolding reachable_def by (rule rtrancl_into_rtrancl) simp_all

lemma reachable_closed:
  assumes "reachable tm a b" and "a \<in> V" and "\<forall>v \<in> V. set (neighbors tm v) \<subseteq> V"
  shows "b \<in> V"
  using assms unfolding reachable_def
  by (induction rule: rtrancl_induct) auto

lemma chain_update:
  "chain pred start v p \<Longrightarrow> n \<notin> dom pred \<Longrightarrow> chain (pred(n \<mapsto> c)) start v p"
proof (induction rule: chain.induct)
  case (chain_start pred start)
  show ?case
    by (rule chain.chain_start)
next
  case (chain_step pred start u p v)
  from chain_step.hyps(2) chain_step.prems have "v \<noteq> n"
    by auto
  with chain_step.hyps(2) have "(pred(n \<mapsto> c)) v = Some u"
    by simp
  with chain_step.IH [OF chain_step.prems] show ?case
    using chain_step.hyps(3) by (rule chain.chain_step)
qed

lemma chain_ends: "chain pred start v p \<Longrightarrow> v \<noteq> start \<Longrightarrow> p \<noteq> [] \<and> last p = v"
  by (induction rule: chain.induct) simp_all

lemma reconstructPath_chain:
  "chain pred start v p \<Longrightarrow> reconstructPath pred start v acc = Some (p @ acc)"
proof (induction arbitrary: acc rule: chain.induct)
  case (chain_start pred start)
  show ?case
    by (subst reconstructPath.simps) simp
next
  case (chain_step pred start u p v)
  from chain_step.IH [of "v # acc"] chain_step.hyps(2,3) show ?case
    by (subst reconstructPath.simps) simp
qed

text \<open>One expansion step keeps the part of the invariant that does not speak of the queue's
  past, and visits every neighbour it is given.\<close>

lemma visitNeighbors_invariant:
  assumes "visitNeighbors c ns (q, vis, pred) = (q', vis', pred')"
    and "set ns \<subseteq> set (neighbors tm c)" and "c \<in> vis"
    and "set q \<subseteq> vis" and "start \<in> vis" and "dom pred \<subseteq> vis"
    and "\<forall>v \<in> vis. reachable tm start v"
    and "\<forall>v \<in> vis. \<exists>p. chain pred start v p"
  shows "set q' \<subseteq> vis' \<and> start \<in> vis' \<and> dom pred' \<subseteq> vis' \<and>
         (\<forall>v \<in> vis'. reachable tm start v) \<and> (\<forall>v \<in> vis'. \<exists>p. chain pred' start v p) \<and>
         vis \<union> set ns \<subseteq> vis' \<and> set q' = set q \<union> (vis' - vis)"
  using assms
proof (induction ns arbitrary: q vis pred)
  case Nil
  then show ?case
    by simp
next
  case (Cons n ns)
  show ?case
  proof (cases "n \<in> vis")
    case True
    with Cons.prems(1) have v: "visitNeighbors c ns (q, vis, pred) = (q', vis', pred')"
      by simp
    from Cons.prems(2) have "set ns \<subseteq> set (neighbors tm c)"
      by simp
    from Cons.IH [OF v this Cons.prems(3-8)] True show ?thesis
      by auto
  next
    case False
    with Cons.prems(1)
    have v: "visitNeighbors c ns (q @ [n], insert n vis, pred(n \<mapsto> c)) = (q', vis', pred')"
      by simp
    from Cons.prems(2) have ns: "set ns \<subseteq> set (neighbors tm c)" and n: "n \<in> set (neighbors tm c)"
      by simp_all
    from False Cons.prems(6) have nd: "n \<notin> dom pred"
      by blast
    from False Cons.prems(5) have nstart: "n \<noteq> start"
      by blast
    have r: "\<forall>v \<in> insert n vis. reachable tm start v"
      using Cons.prems(3,7) n reachable_step by blast
    have ch: "\<forall>v \<in> insert n vis. \<exists>p. chain (pred(n \<mapsto> c)) start v p"
    proof
      fix v assume "v \<in> insert n vis"
      then consider "v = n" | "v \<in> vis"
        by blast
      then show "\<exists>p. chain (pred(n \<mapsto> c)) start v p"
      proof cases
        case 1
        from Cons.prems(3,8) obtain p where "chain pred start c p"
          by blast
        then have "chain (pred(n \<mapsto> c)) start c p"
          using nd by (rule chain_update)
        moreover have "(pred(n \<mapsto> c)) n = Some c"
          by simp
        ultimately have "chain (pred(n \<mapsto> c)) start n (p @ [n])"
          using nstart by (rule chain_step)
        with 1 show ?thesis
          by blast
      next
        case 2
        with Cons.prems(8) obtain p where "chain pred start v p"
          by blast
        then have "chain (pred(n \<mapsto> c)) start v p"
          using nd by (rule chain_update)
        then show ?thesis
          by blast
      qed
    qed
    have "set (q @ [n]) \<subseteq> insert n vis" "c \<in> insert n vis" "start \<in> insert n vis"
      "dom (pred(n \<mapsto> c)) \<subseteq> insert n vis"
      using Cons.prems(3-6) by auto
    from Cons.IH [OF v ns this(2,1,3,4) r ch] False show ?thesis
      by auto
  qed
qed

lemma bfsInvariant_step:
  assumes inv: "bfsInvariant tm start goal (c # q) vis pred"
    and ne: "c \<noteq> goal"
    and v: "visitNeighbors c (neighbors tm c) (q, vis, pred) = (q', vis', pred')"
  shows "bfsInvariant tm start goal q' vis' pred'"
proof -
  from inv have i: "set q \<subseteq> vis" "c \<in> vis" "start \<in> vis" "dom pred \<subseteq> vis"
    "\<forall>v \<in> vis. reachable tm start v" "\<forall>v \<in> vis. \<exists>p. chain pred start v p"
    and past: "\<forall>v \<in> vis - set (c # q). v \<noteq> goal \<and> set (neighbors tm v) \<subseteq> vis"
    by (simp_all add: bfsInvariant_def)
  note s = visitNeighbors_invariant [OF v subset_refl i(2,1,3,4,5,6)]
  have "v \<noteq> goal \<and> set (neighbors tm v) \<subseteq> vis'" if "v \<in> vis' - set q'" for v
  proof (cases "v = c")
    case True
    with ne s show ?thesis
      by blast
  next
    case False
    with that s have "v \<in> vis - set (c # q)"
      by auto
    with past s show ?thesis
      by blast
  qed
  with s show ?thesis
    unfolding bfsInvariant_def by blast
qed

lemma bfs_correct:
  "bfsInvariant tm start goal queue vis pred \<Longrightarrow>
     (case bfs tm goal queue vis pred of
        None \<Rightarrow> \<not> reachable tm start goal
      | Some pred' \<Rightarrow> reachable tm start goal \<and> (\<exists>p. chain pred' start goal p))"
proof (induction tm goal queue vis pred rule: bfs.induct)
  case (1 tm goal visited pred)
  then have "start \<in> visited" and "\<forall>v \<in> visited. set (neighbors tm v) \<subseteq> visited" and "goal \<notin> visited"
    by (auto simp: bfsInvariant_def)
  then have "\<not> reachable tm start goal"
    using reachable_closed by blast
  then show ?case
    by simp
next
  case (2 tm goal c queue visited pred)
  show ?case
  proof (cases "c = goal")
    case True
    with "2.prems" show ?thesis
      by (simp add: bfsInvariant_def)
  next
    case False
    obtain q' vis' pred' where v: "visitNeighbors c (neighbors tm c) (queue, visited, pred) = (q', vis', pred')"
      by (cases "visitNeighbors c (neighbors tm c) (queue, visited, pred)")
    from bfsInvariant_step [OF "2.prems" False v] have "bfsInvariant tm start goal q' vis' pred'" .
    from "2.IH" [OF False v [symmetric] refl this] False v show ?thesis
      by simp
  qed
qed

lemma bfsInvariant_initial: "bfsInvariant tm start goal [start] {start} Map.empty"
  by (auto simp: bfsInvariant_def reachable_refl intro: chain_start)

lemma findPath_reachable:
  assumes "start \<noteq> goal" and "reachable tm start goal"
  shows "\<exists>p. findPath tm start goal = Some p \<and> p \<noteq> [] \<and> last p = goal"
proof -
  from bfs_correct [OF bfsInvariant_initial, of tm start goal] assms(2)
  obtain pred' p where b: "bfs tm goal [start] {start} Map.empty = Some pred'" and c: "chain pred' start goal p"
    by (auto split: option.splits)
  from reconstructPath_chain [OF c, of "[]"] b assms(1) have "findPath tm start goal = Some p"
    by (simp add: findPath_def)
  with chain_ends [OF c] assms(1) show ?thesis
    by auto
qed

lemma findPath_unreachable:
  assumes "start \<noteq> goal" and "\<not> reachable tm start goal"
  shows "findPath tm start goal = None"
  using bfs_correct [OF bfsInvariant_initial, of tm start goal] assms
  by (auto simp: findPath_def split: option.splits)

text \<open>
  C4.  For every cell \<open>a\<close>, \<open>findPath a a\<close> is the empty path; and for all cells \<open>a\<close> and
  \<open>b\<close> such that no sequence of steps over walkable orthogonal neighbours leads from \<open>a\<close> to
  \<open>b\<close>, \<open>findPath a b\<close> is \<open>none\<close>.
\<close>

theorem findPath_same_cell_and_unreachable:
  "findPath tm a a = Some [] \<and> (\<not> reachable tm a b \<longrightarrow> findPath tm a b = None)"
proof -
  have "findPath tm a b = None" if "\<not> reachable tm a b"
  proof -
    from that reachable_refl have "a \<noteq> b"
      by blast
    then show ?thesis
      using that by (rule findPath_unreachable)
  qed
  then show ?thesis
    by (simp add: findPath_def)
qed

lemma neighbors_walled_origin: "neighbors walledCorridor (0, 0) = []"
  by (simp add: neighbors_def isWalkable_def walledCorridor_def)

lemma walled_unreachable: "\<not> reachable walledCorridor (0, 0) (2, 0)"
proof
  assume "reachable walledCorridor (0, 0) (2, 0)"
  then have "(2, 0) \<in> {(0, 0) :: cell}"
    by (rule reachable_closed) (simp_all add: neighbors_walled_origin)
  then show False
    by simp
qed

text \<open>Witness: in the corridor with a wall in the middle, the far end cannot be reached from
  the near end.\<close>

theorem findPath_same_cell_and_unreachable_witness:
  "\<not> reachable walledCorridor (0, 0) (2, 0) \<and> findPath walledCorridor (0, 0) (2, 0) = None \<and>
   findPath walledCorridor (0, 0) (0, 0) = Some []"
  using findPath_same_cell_and_unreachable [of walledCorridor "(0, 0)" "(2, 0)"] walled_unreachable
  by simp

lemma eval_walled: "findPath walledCorridor (0, 0) (2, 0) = None"
  by (simp add: findPath_def neighbors_walled_origin)

lemma eval_corridor: "findPath corridor (0, 0) (2, 0) = Some [(1, 0), (2, 0)]"
  by (simp add: findPath_def neighbors_def isWalkable_def corridor_def reconstructPath.simps)

section \<open>Properties of the multiplayer hooks\<close>

subsection \<open>Presence reconciliation\<close>

lemma tracked_addNewCharacter:
  "tracked (addNewCharacter myInfo cur os p) = (if id' p \<in> cur then tracked os else insert (id' p) (tracked os))"
  by (simp add: addNewCharacter_def Let_def tracked_setters tracked_addAgent split: option.splits)

lemma tracked_addNewCharacter0:
  "tracked (addNewCharacter0 myInfo cur os p) = (if id' p \<in> cur then tracked os else insert (id' p) (tracked os))"
  by (simp add: addNewCharacter0_def Let_def tracked_setters tracked_addAgent)

lemma tracked_foldl_add:
  "tracked (foldl (addNewCharacter myInfo cur) os ps) = tracked os \<union> (id' ` set ps - cur)"
  by (induction ps arbitrary: os) (auto simp: tracked_addNewCharacter)

lemma tracked_foldl_add0:
  "tracked (foldl (addNewCharacter0 myInfo cur) os ps) = tracked os \<union> (id' ` set ps - cur)"
  by (induction ps arbitrary: os) (auto simp: tracked_addNewCharacter0)

lemma tracked_foldl_remove:
  "tracked (foldl (removeDeparted myInfo S) os ids) = tracked os - {i \<in> set ids. i \<notin> S \<and> i \<noteq> id' myInfo}"
  by (induction ids arbitrary: os) (auto simp: removeDeparted_def tracked_removeAgent)

lemma tracked_presenceSync:
  "tracked (officeState (presenceSync m myInfo state)) =
     (tracked (officeState m) \<union> id' ` set (firstPresences state)) -
     {i \<in> tracked (officeState m). i \<notin> id' ` set (firstPresences state) \<and> i \<noteq> id' myInfo}"
proof -
  have "id' ` PlayerInfo.truncate ` set ps = id' ` set ps" for ps :: "PresencePayload list"
    by (auto simp: PlayerInfo.truncate_def image_iff)
  then show ?thesis
    by (auto simp: presenceSync_def Let_def tracked_foldl_add tracked_foldl_remove tracked_def [of "officeState m"])
qed

lemma tracked_presenceSync0:
  "tracked (officeState (presenceSync0 m myInfo state)) =
     (tracked (officeState m) \<union> id' ` set (firstPresences state)) -
     {i \<in> tracked (officeState m). i \<notin> id' ` set (firstPresences state) \<and> i \<noteq> id' myInfo}"
  by (auto simp: presenceSync0_def Let_def tracked_foldl_add0 tracked_foldl_remove tracked_def [of "officeState m"])

text \<open>
  C1.  For every presence snapshot and every prior set of tracked characters, after the
  presence handler has run the tracked ids other than the local participant's are exactly the
  snapshot's ids other than the local participant's; every id of the snapshot is tracked
  (those not tracked before have been added); every id tracked before that the snapshot lacks
  is no longer tracked, unless it is the local participant's; and the local participant's
  character, if tracked before, is still tracked.  The same holds of the hook's earlier revision
  (\<open>presenceSync0\<close>).
\<close>

theorem presenceSync_reconciles:
  "tracked (officeState (presenceSync m myInfo state)) - {id' myInfo} =
     id' ` set (firstPresences state) - {id' myInfo} \<and>
   id' ` set (firstPresences state) \<subseteq> tracked (officeState (presenceSync m myInfo state)) \<and>
   (\<forall>i \<in> tracked (officeState m). i \<notin> id' ` set (firstPresences state) \<and> i \<noteq> id' myInfo \<longrightarrow>
      i \<notin> tracked (officeState (presenceSync m myInfo state))) \<and>
   (id' myInfo \<in> tracked (officeState m) \<longrightarrow>
      id' myInfo \<in> tracked (officeState (presenceSync m myInfo state))) \<and>
   tracked (officeState (presenceSync0 m myInfo state0)) - {id' myInfo} =
     id' ` set (firstPresences state0) - {id' myInfo} \<and>
   id' ` set (firstPresences state0) \<subseteq> tracked (officeState (presenceSync0 m myInfo state0)) \<and>
   (\<forall>i \<in> tracked (officeState m). i \<notin> id' ` set (firstPresences state0) \<and> i \<noteq> id' myInfo \<longrightarrow>
      i \<notin> tracked (officeState (presenceSync0 m myInfo state0))) \<and>
   (id' myInfo \<in> tracked (officeState m) \<longrightarrow>
      id' myInfo \<in> tracked (officeState (presenceSync0 m myInfo state0)))"
  unfolding tracked_presenceSync tracked_presenceSync0 by blast

text \<open>Witness: the local participant 1 and participant 2 are tracked; the snapshot holds 1
  and 3.  Afterwards exactly 1 and 3 are tracked.\<close>

theorem presenceSync_reconciles_witness:
  "id' ann \<in> tracked (officeState (clientOn corridor)) \<and>
   tracked (officeState (clientOn corridor)) = {1, 2} \<and>
   id' ` set (firstPresences snapshot) = {1, 3} \<and>
   tracked (officeState (presenceSync (clientOn corridor) ann snapshot)) = {1, 3}"
proof -
  have t: "tracked (officeState (clientOn corridor)) = {1, 2}"
    by (auto simp: tracked_def clientOn_def officeOn_def)
  have s: "id' ` set (firstPresences snapshot) = {1, 3}"
    by (auto simp: firstPresences_def snapshot_def)
  have a: "id' ann = 1"
    by (simp add: ann_def)
  from presenceSync_reconciles [of "clientOn corridor" ann snapshot]
  have "tracked (officeState (presenceSync (clientOn corridor) ann snapshot)) - {1} = {1, 3} - {1}"
    and "{1, 3} \<subseteq> tracked (officeState (presenceSync (clientOn corridor) ann snapshot))"
    by (simp_all only: s a)
  then have "tracked (officeState (presenceSync (clientOn corridor) ann snapshot)) = {1, 3}"
    by blast
  with t s a show ?thesis
    by simp
qed

subsection \<open>Position events\<close>

lemma reachable_walkable:
  assumes "reachable tm a b" and "a \<noteq> b"
  shows "isWalkable tm b"
proof -
  from assms obtain u where "b \<in> set (neighbors tm u)"
    unfolding reachable_def by (auto elim: rtranclE)
  with neighbors_walkable [of tm u] show ?thesis
    by (auto simp: walkableCells_def)
qed

lemma walkCharacter_reachable:
  assumes "(tileCol ch, tileRow ch) \<noteq> target" and "reachable tm (tileCol ch, tileRow ch) target"
  shows "path (walkCharacter tm target ch) \<noteq> [] \<and> last (path (walkCharacter tm target ch)) = target \<and>
         tileCol (walkCharacter tm target ch) = tileCol ch \<and>
         tileRow (walkCharacter tm target ch) = tileRow ch"
proof -
  from reachable_walkable [OF assms(2,1)]
  have d: "redirectDestination tm (tileCol ch, tileRow ch) target = target"
    by (rule redirectDestination_walkable)
  from findPath_reachable [OF assms] obtain p where
    "findPath tm (tileCol ch, tileRow ch) target = Some p" "p \<noteq> []" "last p = target"
    by blast
  with d show ?thesis
    by (simp add: walkCharacter_def)
qed

lemma walkCharacter_unreachable:
  assumes "isWalkable tm target" and "\<not> reachable tm (tileCol ch, tileRow ch) target"
  shows "walkCharacter tm target ch = ch"
proof -
  from assms(2) reachable_refl have ne: "(tileCol ch, tileRow ch) \<noteq> target"
    by metis
  from assms(1) have "redirectDestination tm (tileCol ch, tileRow ch) target = target"
    by (rule redirectDestination_walkable)
  with findPath_unreachable [OF ne assms(2)] show ?thesis
    by (simp add: walkCharacter_def)
qed

text \<open>The redirection at work: a walk to the desk on the far end of the corridor ends on the
  cell beside the desk.\<close>

lemma walkCharacter_to_desk:
  "path (walkCharacter deskCorridor (2, 0) (standingAt 2 (0, 0) True)) = [(1, 0)]"
  by (simp add: walkCharacter_def redirectDestination_def standingAt_def findPath_def neighbors_def
      isWalkable_def deskCorridor_def reconstructPath.simps)

lemma moveBroadcast_own: "moveBroadcast m myInfo (id' myInfo) col row = m"
  by (simp add: moveBroadcast_def)

text \<open>
  C2 (as amended).  A position event whose id is the local participant's is ignored: the
  hook's state is left as it was.  For every inbound position event \<open>{id, col, row}\<close> about a
  tracked character other than the local participant's: if the Manhattan distance between the
  character's tile and \<open>(col, row)\<close> is greater than 10, the character's tile is set to
  \<open>(col, row)\<close> and its queued path is empty; if the distance is at most 10 and greater than
  0 and \<open>(col, row)\<close> is reachable from the character's tile, the character keeps its tile and
  gets a non-empty queued path that ends at \<open>(col, row)\<close>; if the distance is at most 10 and
  \<open>(col, row)\<close> is walkable but not reachable from the character's tile, the character is left
  as it was.
\<close>

theorem moveBroadcast_teleport_or_walk:
  "moveBroadcast m myInfo (id' myInfo) col row = m \<and>
   (playerId \<noteq> id' myInfo \<and> getCharacter (officeState m) playerId = Some ch \<longrightarrow>
      (\<bar>tileCol ch - col\<bar> + \<bar>tileRow ch - row\<bar> > 10 \<longrightarrow>
         getCharacter (officeState (moveBroadcast m myInfo playerId col row)) playerId =
           Some (ch\<lparr>tileCol := col, tileRow := row, path := []\<rparr>)) \<and>
      (0 < \<bar>tileCol ch - col\<bar> + \<bar>tileRow ch - row\<bar> \<and>
       \<bar>tileCol ch - col\<bar> + \<bar>tileRow ch - row\<bar> \<le> 10 \<and>
       reachable (tileMap (officeState m)) (tileCol ch, tileRow ch) (col, row) \<longrightarrow>
         (\<exists>ch'. getCharacter (officeState (moveBroadcast m myInfo playerId col row)) playerId = Some ch' \<and>
                path ch' \<noteq> [] \<and> last (path ch') = (col, row) \<and>
                tileCol ch' = tileCol ch \<and> tileRow ch' = tileRow ch)) \<and>
      (\<bar>tileCol ch - col\<bar> + \<bar>tileRow ch - row\<bar> \<le> 10 \<and>
       isWalkable (tileMap (officeState m)) (col, row) \<and>
       \<not> reachable (tileMap (officeState m)) (tileCol ch, tileRow ch) (col, row) \<longrightarrow>
         getCharacter (officeState (moveBroadcast m myInfo playerId col row)) playerId = Some ch))"
proof -
  let ?d = "\<bar>tileCol ch - col\<bar> + \<bar>tileRow ch - row\<bar>"
  let ?os = "officeState m"
  let ?after = "getCharacter (officeState (moveBroadcast m myInfo playerId col row)) playerId"
  have far: "?after = Some (ch\<lparr>tileCol := col, tileRow := row, path := []\<rparr>)"
    if "playerId \<noteq> id' myInfo" "getCharacter ?os playerId = Some ch" "?d > 10"
    using that
    by (simp add: moveBroadcast_def Let_def teleportToTile_def getCharacter_updateCharacter)
  have walk: "?after = Some (walkCharacter (tileMap ?os) (col, row) ch)"
    if "playerId \<noteq> id' myInfo" "getCharacter ?os playerId = Some ch" "0 < ?d" "?d \<le> 10"
    using that
    by (simp add: moveBroadcast_def Let_def walkToTile_def getCharacter_updateCharacter)
  have near: "\<exists>ch'. ?after = Some ch' \<and> path ch' \<noteq> [] \<and> last (path ch') = (col, row) \<and>
      tileCol ch' = tileCol ch \<and> tileRow ch' = tileRow ch"
    if a: "playerId \<noteq> id' myInfo" "getCharacter ?os playerId = Some ch"
      and d: "0 < ?d" "?d \<le> 10"
      and r: "reachable (tileMap ?os) (tileCol ch, tileRow ch) (col, row)"
  proof -
    from d have "(tileCol ch, tileRow ch) \<noteq> (col, row)"
      by auto
    from walkCharacter_reachable [OF this r] walk [OF a d] show ?thesis
      by blast
  qed
  have blocked: "?after = Some ch"
    if a: "playerId \<noteq> id' myInfo" "getCharacter ?os playerId = Some ch"
      and d: "?d \<le> 10"
      and w: "isWalkable (tileMap ?os) (col, row)"
      and r: "\<not> reachable (tileMap ?os) (tileCol ch, tileRow ch) (col, row)"
  proof -
    from r reachable_refl have "(tileCol ch, tileRow ch) \<noteq> (col, row)"
      by metis
    then have "0 < ?d"
      by auto
    from walk [OF a this d] walkCharacter_unreachable [OF w r] show ?thesis
      by simp
  qed
  from moveBroadcast_own far near blocked show ?thesis
    by blast
qed

lemma corridor_reachable: "reachable corridor (0, 0) (2, 0)"
proof -
  have "reachable corridor (0, 0) (1, 0)"
    by (rule reachable_step [OF reachable_refl]) (simp add: neighbors_def isWalkable_def corridor_def)
  then show ?thesis
    by (rule reachable_step) (simp add: neighbors_def isWalkable_def corridor_def)
qed

text \<open>Witness: in the open corridor, participant 2 on (0, 0) is teleported by an event for
  (40, 0) and walks on an event for (2, 0); an event about the local participant 1 changes
  nothing.\<close>

theorem moveBroadcast_teleport_or_walk_witness:
  "(2::int) \<noteq> id' ann \<and>
   getCharacter (officeState (clientOn corridor)) 2 = Some (standingAt 2 (0, 0) True) \<and>
   reachable (tileMap (officeState (clientOn corridor))) (0, 0) (2, 0) \<and>
   getCharacter (officeState (moveBroadcast (clientOn corridor) ann 2 40 0)) 2 =
     Some ((standingAt 2 (0, 0) True)\<lparr>tileCol := 40, tileRow := 0, path := []\<rparr>) \<and>
   (\<exists>ch'. getCharacter (officeState (moveBroadcast (clientOn corridor) ann 2 2 0)) 2 = Some ch' \<and>
          path ch' \<noteq> [] \<and> last (path ch') = (2, 0)) \<and>
   moveBroadcast (clientOn corridor) ann (id' ann) 2 0 = clientOn corridor"
proof -
  have a: "(2::int) \<noteq> id' ann"
    by (simp add: ann_def)
  have b: "getCharacter (officeState (clientOn corridor)) 2 = Some (standingAt 2 (0, 0) True)"
    by (simp add: getCharacter_def clientOn_def officeOn_def)
  have c: "reachable (tileMap (officeState (clientOn corridor))) (0, 0) (2, 0)"
    using corridor_reachable by (simp add: clientOn_def officeOn_def)
  note t = moveBroadcast_teleport_or_walk
    [where m = "clientOn corridor" and myInfo = ann and playerId = 2
       and ch = "standingAt 2 (0, 0) True"]
  from t [where col = 40 and row = 0] a b
  have far: "getCharacter (officeState (moveBroadcast (clientOn corridor) ann 2 40 0)) 2 =
     Some ((standingAt 2 (0, 0) True)\<lparr>tileCol := 40, tileRow := 0, path := []\<rparr>)"
    by (simp add: standingAt_def)
  from t [where col = 2 and row = 0] a b c
  have near: "\<exists>ch'. getCharacter (officeState (moveBroadcast (clientOn corridor) ann 2 2 0)) 2 = Some ch' \<and>
          path ch' \<noteq> [] \<and> last (path ch') = (2, 0)"
    and own: "moveBroadcast (clientOn corridor) ann (id' ann) 2 0 = clientOn corridor"
    by (auto simp add: standingAt_def)
  from a b c far near own show ?thesis
    by blast
qed

lemma walled_far_end_walkable: "isWalkable walledCorridor (2, 0)"
  by (simp add: isWalkable_def walledCorridor_def)

text \<open>
  Counterexample to C2 as stated.  In the corridor with a wall in the middle, participant 2
  stands on (0, 0) with an empty queued path; a position event for (2, 0), at distance 2,
  leaves everything as it was, so no path ending at (2, 0) is queued.  And a position event
  about the local participant's own character 1 for (40, 0), at distance 40, is ignored: the
  character is not moved.
\<close>

theorem moveBroadcast_no_path_when_blocked_or_own:
  "getCharacter (officeState (clientOn walledCorridor)) 2 = Some (standingAt 2 (0, 0) True) \<and>
   moveBroadcast (clientOn walledCorridor) ann 2 2 0 = clientOn walledCorridor \<and>
   getCharacter (officeState (clientOn walledCorridor)) 1 = Some (standingAt 1 (0, 0) False) \<and>
   moveBroadcast (clientOn walledCorridor) ann 1 40 0 = clientOn walledCorridor"
  by (simp add: moveBroadcast_def getCharacter_def clientOn_def officeOn_def ann_def standingAt_def
      walkToTile_def updateCharacter_def walkCharacter_def eval_walled
      redirectDestination_walkable walled_far_end_walkable)

subsection \<open>Status and seat events\<close>

text \<open>
  C3.  A status event whose \<open>playerId\<close> is the local participant's id changes nothing: the
  hook's state, the engine's characters included, is the same after the handler as before.
  (The handler is the same in both revisions of the hook over Supabase Realtime.)
\<close>

theorem status_self_suppression:
  "statusBroadcast m myInfo (id' myInfo) st = m"
  by (simp add: statusBroadcast_def)

text \<open>Witness: the local participant's own status event.\<close>

theorem status_self_suppression_witness:
  "statusBroadcast (clientOn corridor) ann (id' ann) Afk = clientOn corridor"
  by (rule status_self_suppression)

lemma status_update:
  "(if st = Afk
    then showWaitingBubble (setAgentTool (setAgentActive os i (statusToActive st)) i (statusToTool st)) i
    else setAgentTool (setAgentActive os i (statusToActive st)) i (statusToTool st)) =
   updateCharacter os i
     (\<lambda>ch. ch\<lparr>isActive := statusToActive st,
               charState := (if charState ch = SittingIdle \<or> charState ch = SittingActive
                             then (if statusToActive st then SittingActive else SittingIdle)
                             else charState ch),
               currentTool := statusToTool st,
               waitingBubble := (st = Afk \<or> waitingBubble ch)\<rparr>)"
proof -
  have "ch\<lparr>waitingBubble := waitingBubble ch\<rparr> = ch" for ch :: Character
    by simp
  then show ?thesis
    by (simp add: showWaitingBubble_def setAgentTool_def setAgentActive_def updateCharacter_twice)
qed

lemma status_update_twice:
  "updateCharacter
     (updateCharacter os i
        (\<lambda>ch. ch\<lparr>isActive := a,
                  charState := (if charState ch = SittingIdle \<or> charState ch = SittingActive
                                then (if a then SittingActive else SittingIdle)
                                else charState ch),
                  currentTool := t,
                  waitingBubble := (b \<or> waitingBubble ch)\<rparr>)) i
     (\<lambda>ch. ch\<lparr>isActive := a,
               charState := (if charState ch = SittingIdle \<or> charState ch = SittingActive
                             then (if a then SittingActive else SittingIdle)
                             else charState ch),
               currentTool := t,
               waitingBubble := (b \<or> waitingBubble ch)\<rparr>) =
   updateCharacter os i
     (\<lambda>ch. ch\<lparr>isActive := a,
               charState := (if charState ch = SittingIdle \<or> charState ch = SittingActive
                             then (if a then SittingActive else SittingIdle)
                             else charState ch),
               currentTool := t,
               waitingBubble := (b \<or> waitingBubble ch)\<rparr>)"
  unfolding updateCharacter_twice
  by (rule arg_cong [where f = "updateCharacter os i"]) (auto simp: fun_eq_iff)

lemma players_map_twice: "(\<And>p. f (f p) = f p) \<Longrightarrow> (\<And>p. k (f p) = k p) \<Longrightarrow>
    map (\<lambda>p. if k p = i then f p else p) (map (\<lambda>p. if k p = i then f p else p) ps) =
    map (\<lambda>p. if k p = i then f p else p) ps"
  by (induction ps) auto

text \<open>
  C5.  Applying the same status event twice in a row leaves the hook's state (the engine and
  the player list) as applying it once does, for the broadcast handler of the hook over
  Supabase Realtime and for \<open>playerStatusChanged\<close> of the hook over the relay server; and
  so does applying the same \<open>playerSeatChanged\<close> event twice.
\<close>

theorem status_and_seat_events_idempotent:
  "statusBroadcast (statusBroadcast m myInfo i st) myInfo i st = statusBroadcast m myInfo i st \<and>
   onServerMessage (onServerMessage m (PlayerStatusChanged i st)) (PlayerStatusChanged i st) =
     onServerMessage m (PlayerStatusChanged i st) \<and>
   onServerMessage (onServerMessage m (PlayerSeatChanged i sid)) (PlayerSeatChanged i sid) =
     onServerMessage m (PlayerSeatChanged i sid)"
proof -
  have a: "statusBroadcast (statusBroadcast m myInfo i st) myInfo i st = statusBroadcast m myInfo i st"
    by (simp add: statusBroadcast_def Let_def status_update status_update_twice)
  have "map (\<lambda>p. if id' p = i then p\<lparr>status := st\<rparr> else p)
          (map (\<lambda>p. if id' p = i then p\<lparr>status := st\<rparr> else p) (playersState m)) =
        map (\<lambda>p. if id' p = i then p\<lparr>status := st\<rparr> else p) (playersState m)"
    by (rule players_map_twice) simp_all
  then have b: "onServerMessage (onServerMessage m (PlayerStatusChanged i st)) (PlayerStatusChanged i st) =
     onServerMessage m (PlayerStatusChanged i st)"
    by (simp add: Let_def status_update status_update_twice)
  have "map (\<lambda>p. if id' p = i then p\<lparr>seatId := Some sid\<rparr> else p)
          (map (\<lambda>p. if id' p = i then p\<lparr>seatId := Some sid\<rparr> else p) (playersState m)) =
        map (\<lambda>p. if id' p = i then p\<lparr>seatId := Some sid\<rparr> else p) (playersState m)"
    by (rule players_map_twice) simp_all
  then have c: "onServerMessage (onServerMessage m (PlayerSeatChanged i sid)) (PlayerSeatChanged i sid) =
     onServerMessage m (PlayerSeatChanged i sid)"
    by (simp add: reassignSeat_twice)
  from a b c show ?thesis
    by blast
qed

text \<open>Witness: a status event about participant 2 changes the state, and a second one changes
  nothing more.\<close>

theorem status_and_seat_events_idempotent_witness:
  "statusBroadcast (clientOn corridor) ann 2 Afk \<noteq> clientOn corridor \<and>
   statusBroadcast (statusBroadcast (clientOn corridor) ann 2 Afk) ann 2 Afk =
     statusBroadcast (clientOn corridor) ann 2 Afk"
proof -
  have "waitingBubble (the (getCharacter (officeState (statusBroadcast (clientOn corridor) ann 2 Afk)) 2))"
    and "\<not> waitingBubble (the (getCharacter (officeState (clientOn corridor)) 2))"
    by (simp_all add: statusBroadcast_def Let_def ann_def showWaitingBubble_def setAgentTool_def
        setAgentActive_def updateCharacter_def getCharacter_def clientOn_def officeOn_def
        standingAt_def)
  then have "statusBroadcast (clientOn corridor) ann 2 Afk \<noteq> clientOn corridor"
    by auto
  with status_and_seat_events_idempotent [of "clientOn corridor" ann 2 Afk] show ?thesis
    by blast
qed

subsection \<open>The position broadcast loop\<close>

lemma tick_emits:
  assumes "tick refs fr = (refs', Some ev)"
  shows "movePos ev \<noteq> lastBroadcastPos refs \<and> now fr - lastBroadcastTime refs \<ge> 200 \<and>
         lastBroadcastPos refs' = movePos ev \<and> lastBroadcastTime refs' = now fr"
  using assms
  by (auto simp: tick_def movePos_def Let_def POSITION_BROADCAST_INTERVAL_MS_def prod_eq_iff
      split: if_splits option.splits)

lemma tick_reports_tile:
  assumes "tick refs fr = (refs', Some ev)"
  shows "\<exists>myInfo ch. myInfoRef fr = Some myInfo \<and>
           getCharacter (frameOffice fr) (id' myInfo) = Some ch \<and>
           ev = MoveEvent (id' myInfo) (tileCol ch) (tileRow ch)"
  using assms
  by (auto simp: tick_def Let_def split: if_splits option.splits)

lemma tick_silent:
  assumes "tick refs fr = (refs', None)"
  shows "refs' = refs"
  using assms
  by (auto simp: tick_def Let_def split: if_splits option.splits)

lemma broadcastLoop_after_last:
  "list_all (\<lambda>x. lastBroadcastTime refs + 200 \<le> fst x) (broadcastLoop refs frs)"
proof (induction frs arbitrary: refs)
  case Nil
  then show ?case by simp
next
  case (Cons fr frs)
  obtain refs' out where t: "tick refs fr = (refs', out)"
    by (cases "tick refs fr")
  show ?case
  proof (cases out)
    case None
    with t tick_silent have "refs' = refs"
      by blast
    with t None Cons.IH [of refs] show ?thesis
      by simp
  next
    case (Some ev)
    with t tick_emits have e: "now fr - lastBroadcastTime refs \<ge> 200" "lastBroadcastTime refs' = now fr"
      by blast+
    have "list_all (\<lambda>x. lastBroadcastTime refs' + 200 \<le> fst x) (broadcastLoop refs' frs)"
      by (rule Cons.IH)
    with e have "list_all (\<lambda>x. lastBroadcastTime refs + 200 \<le> fst x) (broadcastLoop refs' frs)"
      by (auto simp: list_all_iff)
    with t Some e show ?thesis
      by simp
  qed
qed

lemma broadcastLoop_spaced:
  "sorted_wrt (\<lambda>a b. fst a + 200 \<le> fst b) (broadcastLoop refs frs)"
proof (induction frs arbitrary: refs)
  case Nil
  then show ?case by simp
next
  case (Cons fr frs)
  obtain refs' out where t: "tick refs fr = (refs', out)"
    by (cases "tick refs fr")
  show ?case
  proof (cases out)
    case None
    with t Cons.IH [of refs'] show ?thesis
      by simp
  next
    case (Some ev)
    with t tick_emits have e: "lastBroadcastTime refs' = now fr"
      by blast
    from broadcastLoop_after_last [of refs' frs] e
    have "\<forall>x \<in> set (broadcastLoop refs' frs). now fr + 200 \<le> fst x"
      by (simp add: list_all_iff)
    with t Some Cons.IH [of refs'] show ?thesis
      by simp
  qed
qed

lemma broadcastLoop_first_moves:
  "broadcastLoop refs frs = [] \<or> movePos (snd (hd (broadcastLoop refs frs))) \<noteq> lastBroadcastPos refs"
proof (induction frs arbitrary: refs)
  case Nil
  then show ?case by simp
next
  case (Cons fr frs)
  obtain refs' out where t: "tick refs fr = (refs', out)"
    by (cases "tick refs fr")
  show ?case
  proof (cases out)
    case None
    with t tick_silent have "refs' = refs"
      by blast
    with t None Cons.IH [of refs] show ?thesis
      by simp
  next
    case (Some ev)
    with t tick_emits [of refs fr refs' ev] show ?thesis
      by simp
  qed
qed

lemma broadcastLoop_moves:
  "distinct_adj (map (\<lambda>x. movePos (snd x)) (broadcastLoop refs frs))"
proof (induction frs arbitrary: refs)
  case Nil
  then show ?case by simp
next
  case (Cons fr frs)
  obtain refs' out where t: "tick refs fr = (refs', out)"
    by (cases "tick refs fr")
  show ?case
  proof (cases out)
    case None
    with t Cons.IH [of refs'] show ?thesis
      by simp
  next
    case (Some ev)
    with t tick_emits [of refs fr refs' ev] have e: "lastBroadcastPos refs' = movePos ev"
      by simp
    from broadcastLoop_first_moves [of refs' frs] e Cons.IH [of refs'] t Some show ?thesis
      by (cases "broadcastLoop refs' frs") (auto simp: distinct_adj_Cons)
  qed
qed

text \<open>
  C6.  Times are the values of \<open>Date.now()\<close> the frames read.  Whatever the refs hold at
  first and whatever the frames find: any two position broadcasts are at least 200 ms apart,
  the later after the earlier; every broadcast comes at least 200 ms after the last
  broadcast time the refs held at first; each broadcast reports a tile different from the one
  broadcast before it, and the first a tile different from the last broadcast position the
  refs held at first.  For a single frame: if it broadcasts, it reports the tile of the local
  participant's character, that tile differs from the last broadcast position, and at least
  200 ms have passed since the last broadcast time.
\<close>

theorem position_broadcast_rate_limit:
  "sorted_wrt (\<lambda>a b. fst a + 200 \<le> fst b) (broadcastLoop refs frs) \<and>
   list_all (\<lambda>x. lastBroadcastTime refs + 200 \<le> fst x) (broadcastLoop refs frs) \<and>
   distinct_adj (map (\<lambda>x. movePos (snd x)) (broadcastLoop refs frs)) \<and>
   (broadcastLoop refs frs = [] \<or> movePos (snd (hd (broadcastLoop refs frs))) \<noteq> lastBroadcastPos refs) \<and>
   (\<forall>refs' ev. tick refs fr = (refs', Some ev) \<longrightarrow>
      (\<exists>myInfo ch. myInfoRef fr = Some myInfo \<and>
         getCharacter (frameOffice fr) (id' myInfo) = Some ch \<and>
         ev = MoveEvent (id' myInfo) (tileCol ch) (tileRow ch) \<and>
         (tileCol ch, tileRow ch) \<noteq> lastBroadcastPos refs) \<and>
      lastBroadcastTime refs + 200 \<le> now fr)"
proof -
  have "(\<exists>myInfo ch. myInfoRef fr = Some myInfo \<and>
         getCharacter (frameOffice fr) (id' myInfo) = Some ch \<and>
         ev = MoveEvent (id' myInfo) (tileCol ch) (tileRow ch) \<and>
         (tileCol ch, tileRow ch) \<noteq> lastBroadcastPos refs) \<and>
      lastBroadcastTime refs + 200 \<le> now fr"
    if t: "tick refs fr = (refs', Some ev)" for refs' ev
  proof -
    from tick_reports_tile [OF t] obtain myInfo ch where
      r: "myInfoRef fr = Some myInfo" "getCharacter (frameOffice fr) (id' myInfo) = Some ch"
         "ev = MoveEvent (id' myInfo) (tileCol ch) (tileRow ch)"
      by blast
    from tick_emits [OF t] r(3) have "(tileCol ch, tileRow ch) \<noteq> lastBroadcastPos refs"
      and "lastBroadcastTime refs + 200 \<le> now fr"
      by (simp_all add: movePos_def)
    with r show ?thesis
      by blast
  qed
  with broadcastLoop_spaced broadcastLoop_after_last broadcastLoop_moves broadcastLoop_first_moves
  show ?thesis
    by blast
qed

text \<open>Witness: of three frames the first broadcasts (0, 0) at time 1000; the second, 100 ms
  later, finds a new tile and stays silent; the third broadcasts (1, 0) at time 1250.\<close>

theorem position_broadcast_rate_limit_witness:
  "broadcastLoop initialRefs frames = [(1000, MoveEvent 1 0 0), (1250, MoveEvent 1 1 0)] \<and>
   sorted_wrt (\<lambda>a b. fst a + 200 \<le> fst b) [(1000 :: int, MoveEvent 1 0 0), (1250, MoveEvent 1 1 0)]"
proof -
  have e: "broadcastLoop initialRefs frames = [(1000, MoveEvent 1 0 0), (1250, MoveEvent 1 1 0)]"
    by (simp add: frames_def initialRefs_def tick_def getCharacter_def officeOn_def ann_def
        standingAt_def teleportToTile_def updateCharacter_def POSITION_BROADCAST_INTERVAL_MS_def)
  from position_broadcast_rate_limit [of initialRefs frames]
  have "sorted_wrt (\<lambda>a b. fst a + 200 \<le> fst b) (broadcastLoop initialRefs frames)"
    by blast
  with e show ?thesis
    by (simp only:)
qed

section \<open>Properties of the relay server\<close>

lemma random_index: "0 \<le> r \<Longrightarrow> r < 1 \<Longrightarrow> 0 \<le> \<lfloor>r * real (length chars)\<rfloor> \<and> \<lfloor>r * real (length chars)\<rfloor> < int (length chars)"
  by (simp add: chars_def floor_less_iff)

lemma charAt_in_range:
  "0 \<le> i \<Longrightarrow> i < int (length s) \<Longrightarrow> length (charAt s i) = 1 \<and> set (charAt s i) \<subseteq> set s"
  by (simp add: charAt_def)

lemma appendRandomChars_shape:
  "random_ok rnd \<Longrightarrow>
     length (appendRandomChars rnd k n acc) = length acc + n \<and>
     set (appendRandomChars rnd k n acc) \<subseteq> set acc \<union> set chars"
proof (induction n arbitrary: k acc)
  case 0
  then show ?case by simp
next
  case (Suc n)
  from Suc.prems have r: "0 \<le> rnd k" "rnd k < 1"
    by (simp_all add: random_ok_def)
  let ?c = "charAt chars \<lfloor>rnd k * real (length chars)\<rfloor>"
  have c: "length ?c = 1 \<and> set ?c \<subseteq> set chars"
    using random_index [OF r] charAt_in_range by blast
  from Suc.IH [OF Suc.prems, of "Suc k" "acc @ ?c"] c show ?case
    by auto
qed

lemma freshRoomId_result:
  assumes "freshRoomId rs rnd k = Some res"
  shows "rs (fst res) = None \<and> 6 \<le> snd res \<and> fst res = generateRoomId rnd (snd res - 6)"
proof (rule freshRoomId.raw_induct
    [where P = "\<lambda>rs rnd k res. rs (fst res) = None \<and> 6 \<le> snd res \<and> fst res = generateRoomId rnd (snd res - 6)",
     OF _ assms])
  fix f :: "(string \<rightharpoonup> nat) \<Rightarrow> (nat \<Rightarrow> real) \<Rightarrow> nat \<Rightarrow> (string \<times> nat) option"
  fix rs rnd k res
  assume IH: "\<And>rs rnd k res. f rs rnd k = Some res \<Longrightarrow>
      rs (fst res) = None \<and> 6 \<le> snd res \<and> fst res = generateRoomId rnd (snd res - 6)"
  assume step: "(let rid = generateRoomId rnd k
      in if rs rid \<noteq> None then f rs rnd (k + 6) else Some (rid, k + 6)) = Some res"
  show "rs (fst res) = None \<and> 6 \<le> snd res \<and> fst res = generateRoomId rnd (snd res - 6)"
  proof (cases "rs (generateRoomId rnd k) = None")
    case True
    with step show ?thesis
      by (auto simp: Let_def)
  next
    case False
    with step have "f rs rnd (k + 6) = Some res"
      by (simp add: Let_def)
    then show ?thesis
      by (rule IH)
  qed
qed

lemma freshRoomId_returns:
  "rs (generateRoomId rnd (k + 6 * j)) = None \<Longrightarrow> freshRoomId rs rnd k \<noteq> None"
proof (induction j arbitrary: k)
  case 0
  then show ?case
    by (subst freshRoomId.simps) (simp add: Let_def)
next
  case (Suc j)
  have "rs (generateRoomId rnd ((k + 6) + 6 * j)) = None"
    using Suc.prems by (simp add: add.assoc)
  then have "freshRoomId rs rnd (k + 6) \<noteq> None"
    by (rule Suc.IH)
  then show ?case
    by (subst freshRoomId.simps) (simp add: Let_def)
qed

lemma chars_alphabet:
  "length chars = 32 \<and> distinct chars \<and> set chars \<inter> set ''0O1I'' = {}"
  by (simp add: chars_def)

lemma rooms_sendTo: "rooms (sendTo st w msg) = rooms st"
  by (simp add: sendTo_def)

lemma handleCreateRoom_result:
  assumes "handleCreateRoom st rnd k w nm ci = Some res"
  shows "rooms st (fst (snd res)) = None \<and> rooms (fst res) (fst (snd res)) \<noteq> None \<and>
         6 \<le> snd (snd res) \<and> fst (snd res) = generateRoomId rnd (snd (snd res) - 6)"
proof -
  from assms obtain rid k' where f: "freshRoomId (rooms st) rnd k = Some (rid, k')"
    by (auto simp: handleCreateRoom_def split: option.splits)
  from freshRoomId_result [OF f] have r: "rooms st rid = None" "6 \<le> k'" "rid = generateRoomId rnd (k' - 6)"
    by auto
  from assms f have "fst (snd res) = rid" "snd (snd res) = k'" "rooms (fst res) rid \<noteq> None"
    by (auto simp: handleCreateRoom_def Let_def rooms_sendTo split: prod.splits)
  with r show ?thesis
    by simp
qed

lemma handleCreateRoom_returns:
  assumes "rooms st (generateRoomId rnd (k + 6 * j)) = None"
  shows "handleCreateRoom st rnd k w nm ci \<noteq> None"
  using assms freshRoomId_returns [of "rooms st" rnd k j]
  by (auto simp: handleCreateRoom_def Let_def split: option.splits prod.splits)

text \<open>
  C7 (as amended).  Every room identifier produced at room creation, by the server's
  \<open>generateRoomId\<close> or by the client's \<open>generateRoomCode\<close>, is exactly 6 characters long, each
  drawn from the 32-character alphabet \<open>ABCDEFGHJKLMNPQRSTUVWXYZ23456789\<close>, which has none of
  0, O, 1, I.  The identifier the server's \<open>handleCreateRoom\<close> returns names no room that is
  live when it is created, and names the new room afterwards; and \<open>handleCreateRoom\<close> does
  return as soon as one of its draws is not a live room's identifier.  (Nothing is said of
  the uniqueness of a code drawn by the client.)
\<close>

theorem room_identifier_shape_and_server_freshness:
  assumes "random_ok rnd"
  shows "length chars = 32 \<and> set chars \<inter> set ''0O1I'' = {} \<and>
         length (generateRoomId rnd k) = 6 \<and> set (generateRoomId rnd k) \<subseteq> set chars \<and>
         length (fst (createRoom rnd k x nm ci)) = 6 \<and> set (fst (createRoom rnd k x nm ci)) \<subseteq> set chars \<and>
         (\<forall>res. handleCreateRoom st rnd k w nm ci = Some res \<longrightarrow>
            length (fst (snd res)) = 6 \<and> set (fst (snd res)) \<subseteq> set chars \<and>
            rooms st (fst (snd res)) = None \<and> rooms (fst res) (fst (snd res)) \<noteq> None) \<and>
         ((\<exists>j. rooms st (generateRoomId rnd (k + 6 * j)) = None) \<longrightarrow>
            handleCreateRoom st rnd k w nm ci \<noteq> None)"
proof -
  have shape: "length (generateRoomId rnd i) = 6 \<and> set (generateRoomId rnd i) \<subseteq> set chars" for i
    using appendRandomChars_shape [OF assms, of i 6 "''''"] by (simp add: generateRoomId_def)
  have code: "length (fst (createRoom rnd k x nm ci)) = 6 \<and> set (fst (createRoom rnd k x nm ci)) \<subseteq> set chars"
    using appendRandomChars_shape [OF assms, of k 6 "''''"]
    by (simp add: createRoom_def generateRoomCode_def Let_def)
  have fresh: "length (fst (snd res)) = 6 \<and> set (fst (snd res)) \<subseteq> set chars \<and>
      rooms st (fst (snd res)) = None \<and> rooms (fst res) (fst (snd res)) \<noteq> None"
    if "handleCreateRoom st rnd k w nm ci = Some res" for res
  proof -
    note r = handleCreateRoom_result [OF that]
    from r have e: "fst (snd res) = generateRoomId rnd (snd (snd res) - 6)"
      by blast
    from shape [of "snd (snd res) - 6"]
    have "length (fst (snd res)) = 6 \<and> set (fst (snd res)) \<subseteq> set chars"
      by (simp only: e [symmetric])
    with r show ?thesis
      by blast
  qed
  have returns: "handleCreateRoom st rnd k w nm ci \<noteq> None"
    if "\<exists>j. rooms st (generateRoomId rnd (k + 6 * j)) = None"
    using that handleCreateRoom_returns by blast
  from chars_alphabet shape [of k] code fresh returns show ?thesis
    by blast
qed

lemma demoRandom_ok: "random_ok demoRandom"
  by (simp add: random_ok_def demoRandom_def)

lemma demo_ids: "generateRoomId demoRandom 0 = ''AAAAAA'' \<and> generateRoomId demoRandom 6 = ''SSSSSS''"
  by (simp add: generateRoomId_def demoRandom_def eval_nat_numeral charAt_def chars_def)

text \<open>Witness: the server has the live room AAAAAA and the first six draws spell AAAAAA
  again; the loop draws once more and the room is created.\<close>

theorem room_identifier_shape_and_server_freshness_witness:
  "random_ok demoRandom \<and>
   handleCreateRoom demoServer demoRandom 0 7 ''ann'' 2 \<noteq> None \<and>
   length (generateRoomId demoRandom 0) = 6"
proof -
  have "rooms demoServer (generateRoomId demoRandom (0 + 6 * 1)) = None"
    using demo_ids by (simp add: demoServer_def)
  then have "\<exists>j. rooms demoServer (generateRoomId demoRandom (0 + 6 * j)) = None"
    by blast
  with room_identifier_shape_and_server_freshness [OF demoRandom_ok, of 0 0 "''ann''" 2 demoServer 7]
  show ?thesis
    using demoRandom_ok by blast
qed

text \<open>
  Counterexample to C7 as stated.  The client's \<open>createRoom\<close> consults no list of rooms: two
  clients whose draws agree create the room AAAAAA one after the other, so the second
  identifier is the identifier of a room that is live when it is produced.
\<close>

theorem createRoom_code_not_fresh:
  "random_ok (\<lambda>k. 0) \<and>
   fst (createRoom (\<lambda>k. 0) 0 123456 ''ann'' 0) = ''AAAAAA'' \<and>
   fst (createRoom (\<lambda>k. 0) 0 654321 ''bob'' 1) = ''AAAAAA''"
  by (simp add: random_ok_def createRoom_def generateRoomCode_def Let_def eval_nat_numeral charAt_def chars_def)

text \<open>
  C8 (as amended).  For every \<open>joinRoom\<close> request whose \<open>roomId\<close> names no live room: if the
  requester's socket is open (\<open>readyState\<close> 1), the server sends the requester one \<open>error\<close> event
  with the message "Room <roomId> not found"; if it is not open, the server sends nothing.
  Either way nothing else changes: no room is created, no player is added, no socket is
  bound to a room and nothing is sent to any other client.  The client's handler of the
  \<open>error\<close> event changes nothing and sends nothing, so the join is not retried.
\<close>

theorem handleJoinRoom_room_not_found:
  assumes "rooms st rid = None"
  shows "handleJoinRoom st w rid nm ci =
           (if readyStates st w = 1
            then st\<lparr>wire := wire st @ [(w, Error (''Room '' @ rid @ '' not found''))]\<rparr>
            else st) \<and>
         rooms (handleJoinRoom st w rid nm ci) = rooms st \<and>
         heap (handleJoinRoom st w rid nm ci) = heap st \<and>
         wsToRoom (handleJoinRoom st w rid nm ci) = wsToRoom st \<and>
         onServerMessage m (Error message) = m"
  using assms by (simp add: handleJoinRoom_def sendTo_def)

text \<open>Witness: socket 7 asks to join ZZZZZZ on a server whose only room is AAAAAA.\<close>

theorem handleJoinRoom_room_not_found_witness:
  "rooms demoServer ''ZZZZZZ'' = None \<and>
   wire (handleJoinRoom demoServer 7 ''ZZZZZZ'' ''ann'' 0) = [(7, Error ''Room ZZZZZZ not found'')] \<and>
   rooms (handleJoinRoom demoServer 7 ''ZZZZZZ'' ''ann'' 0) = rooms demoServer"
proof -
  have n: "rooms demoServer ''ZZZZZZ'' = None"
    by (simp add: demoServer_def)
  from handleJoinRoom_room_not_found [OF n, of 7 "''ann''" 0] n show ?thesis
    by (simp add: demoServer_def)
qed

text \<open>
  Counterexample to C8 as stated.  When the requester's socket is closing (\<open>readyState\<close> 2),
  \<open>sendTo\<close> sends nothing: no error event reaches the requester.
\<close>

theorem handleJoinRoom_closing_socket_no_error:
  "rooms closingServer ''ZZZZZZ'' = None \<and>
   readyStates closingServer 7 = 2 \<and>
   wire (handleJoinRoom closingServer 7 ''ZZZZZZ'' ''ann'' 0) = []"
  by (simp add: closingServer_def demoServer_def handleJoinRoom_def sendTo_def)

lemma js_rem_nonneg: "0 \<le> a \<Longrightarrow> 0 \<le> js_rem a 6 \<and> js_rem a 6 \<le> 5"
proof -
  assume a: "0 \<le> a"
  have "a mod 6 < 6"
    by simp
  then have "a mod 6 \<le> 5"
    by linarith
  with a show ?thesis
    by (simp add: js_rem_def sgn_if)
qed

text \<open>
  C9.  \<open>Room.addPlayer\<close> stores \<open>characterIndex % 6\<close>.  For a negative argument the
  remainder is negative: the argument \<open>-1\<close> gives the player the character index \<open>-1\<close>,
  outside the range 0 to 5 its comment promises.
\<close>

theorem addPlayer_negative_characterIndex:
  "characterIndex (snd (addPlayer (newRoom ''AAAAAA'') 0 ''ann'' (- 1))) = - 1"
  by (simp add: addPlayer_def newRoom_def js_rem_def Let_def)

section \<open>Properties of the WebSocket client\<close>

lemma pendingMessages_send: "pendingMessages (send c msg) = pendingMessages c"
  by (simp add: send_def split: option.splits)

lemma pendingMessages_wsStep: "pendingMessages c = [] \<Longrightarrow> pendingMessages (wsStep c e) = []"
  by (cases e)
     (simp_all add: pendingMessages_send connect_def doConnect_def disconnect_def cleanup_def
        onopen_def onclose_def Let_def split: option.splits)

lemma pendingMessages_run: "pendingMessages c = [] \<Longrightarrow> pendingMessages (foldl wsStep c es) = []"
  by (induction es arbitrary: c) (simp_all add: pendingMessages_wsStep)

lemma send_not_connected: "\<not> isConnected c \<Longrightarrow> send c msg = c"
  by (simp add: send_def isConnected_def split: option.splits)

text \<open>
  C10.  While the socket is absent or not open, \<open>send\<close> changes nothing: the message is not
  transmitted and not stored, so whatever happens afterwards is what would have happened
  without the call.  \<open>send\<close> never touches \<open>pendingMessages\<close>; the buffer is empty in
  every state the client reaches from its initial one, whatever is called and whatever the
  socket does; and \<open>onopen\<close> leaves it empty.
\<close>

theorem send_while_disconnected_is_dropped:
  "(\<not> isConnected c \<longrightarrow> send c msg = c \<and> foldl wsStep (send c msg) es = foldl wsStep c es) \<and>
   pendingMessages (send c msg) = pendingMessages c \<and>
   pendingMessages (foldl wsStep newWsClient es) = [] \<and>
   pendingMessages (onopen c) = []"
  using send_not_connected [of c msg] pendingMessages_run [of newWsClient es]
  by (simp add: pendingMessages_send newWsClient_def onopen_def Let_def)

text \<open>Witness: a message sent just after \<open>connect\<close>, while the socket is still connecting,
  is not on the wire once the socket has opened.\<close>

theorem send_while_disconnected_is_dropped_witness:
  "\<not> isConnected (connect newWsClient False) \<and>
   send (connect newWsClient False) (JoinRoom ''ABCDEF'' ''ann'' 0) = connect newWsClient False \<and>
   ws (wsStep (wsStep (send (connect newWsClient False) (JoinRoom ''ABCDEF'' ''ann'' 0)) (ReadyStateChanges 1)) SocketOpens)
     = Some \<lparr>readyState = 1, sent = []\<rparr>"
proof -
  have n: "\<not> isConnected (connect newWsClient False)"
    by (simp add: isConnected_def connect_def doConnect_def newWsClient_def OPEN_def)
  from send_while_disconnected_is_dropped [of "connect newWsClient False" "JoinRoom ''ABCDEF'' ''ann'' 0" "[]"] n
  have "send (connect newWsClient False) (JoinRoom ''ABCDEF'' ''ann'' 0) = connect newWsClient False"
    by blast
  with n show ?thesis
    by (simp add: connect_def doConnect_def newWsClient_def onopen_def Let_def OPEN_def)
qed

end
